theory Spec2Isabelle
  imports Main "HOL-Library.Word"
begin

section \<open>The HSS payload generator: data model\<close>

text \<open>
  This theory embeds \<^verbatim>\<open>tools/hss-payload-generator/generate_payload.c\<close>.
  The program requires a 64-bit compiler (its \<^verbatim>\<open>static_assert\<close>), so
  \<^verbatim>\<open>size_t\<close> is a 64-bit word whose arithmetic wraps. \<^verbatim>\<open>off_t\<close> is the
  64-bit two's complement type of the same width; the program only adds, subtracts and
  compares such values for equality with \<^verbatim>\<open>size_t\<close> values, which is the same
  operation on the same bits, so it is a 64-bit word too.
\<close>

type_synonym byte = "8 word"
type_synonym uint32_t = "32 word"
type_synonym size_t = "64 word"
type_synonym off_t = "64 word"

definition PAD_SIZE :: size_t where
  "PAD_SIZE = 8"

definition EXIT_SUCCESS :: nat where
  "EXIT_SUCCESS = 0"

definition EXIT_FAILURE :: nat where
  "EXIT_FAILURE = 1"

text \<open>
  How a run can stop early: \<open>Exit msg status\<close> is \<^verbatim>\<open>perror(msg); exit(status)\<close>,
  \<open>Abort\<close> is a failed \<^verbatim>\<open>assert\<close>, \<open>Fault\<close> is a read through a null pointer or
  past the end of a buffer (undefined behaviour in C).
\<close>

datatype failure = Exit string nat | Abort | Fault

definition bindE :: "failure + 'a \<Rightarrow> ('a \<Rightarrow> failure + 'b) \<Rightarrow> failure + 'b" where
  "bindE m k = (case m of Inl e \<Rightarrow> Inl e | Inr x \<Rightarrow> k x)"

text \<open>
  The structures of \<^verbatim>\<open>hss_types.h\<close>, with the members this unit reads or writes.
  The members of the header that it never touches are kept as \<open>other_members\<close>.
\<close>

record HSS_BootChunkDesc =
  owner :: uint32_t
  loadAddr :: size_t
  execAddr :: size_t
  chunk_size :: size_t
  crc32 :: uint32_t

record HSS_BootZIChunkDesc =
  zi_owner :: uint32_t
  zi_execAddr :: size_t
  zi_size :: size_t

record HSS_Signature =
  digest :: "byte list"
  ecdsaSig :: "byte list"

record HSS_BootImage =
  magic :: uint32_t
  version :: uint32_t
  headerLength :: size_t
  headerCrc :: uint32_t
  chunkTableOffset :: size_t
  ziChunkTableOffset :: size_t
  bootImageLength :: size_t
  signature :: HSS_Signature
  other_members :: "byte list"

text \<open>A table entry owns its buffer; \<open>None\<close> is a null (or released) pointer.\<close>

record chunkTableEntry =
  chunk :: HSS_BootChunkDesc
  pBuffer :: "byte list option"

text \<open>
  What the unit takes from outside: the sizes and object representations of the three
  structures and the two constants (all from \<^verbatim>\<open>hss_types.h\<close>), the checksum of
  \<^verbatim>\<open>crc32.h\<close>, and the OpenSSL primitives. \<open>ECDSA_sign key d\<close> stands for reading
  the key file, checking the curve and signing digest \<open>d\<close>; it gives the big-endian bytes
  of \<open>r\<close> and \<open>s\<close>, or \<open>None\<close> where one of the assertions on the way fails.
\<close>

record platform =
  sizeof_BootImage :: size_t
  sizeof_BootChunkDesc :: size_t
  sizeof_BootZIChunkDesc :: size_t
  bytes_BootImage :: "HSS_BootImage \<Rightarrow> byte list"
  bytes_BootChunkDesc :: "HSS_BootChunkDesc \<Rightarrow> byte list"
  bytes_BootZIChunkDesc :: "HSS_BootZIChunkDesc \<Rightarrow> byte list"
  mHSS_BOOT_MAGIC :: uint32_t
  mHSS_BOOT_VERSION :: uint32_t
  CRC32_calculate :: "byte list \<Rightarrow> uint32_t"
  SHA384 :: "byte list \<Rightarrow> byte list"
  ECDSA_sign :: "string \<Rightarrow> byte list \<Rightarrow> (byte list \<times> byte list) option"

text \<open>
  The static variables of the unit and the header it shares. \<open>allocs_ok\<close> is the
  allocator's part of the environment: how many allocations succeed before the first one
  that fails (\<open>None\<close>: none fails).
\<close>

record globals =
  bootImage :: HSS_BootImage
  chunkTable :: "chunkTableEntry list"
  ziChunkTable :: "HSS_BootZIChunkDesc list"
  numChunks :: size_t
  numZIChunks :: size_t
  bootImagePaddedSize :: off_t
  chunkTablePaddedSize :: off_t
  ziChunkTablePaddedSize :: off_t
  allocs_ok :: "nat option"

section \<open>The output stream\<close>

text \<open>
  A stream is the bytes of the file and the cursor. \<open>calls_ok\<close> is how many stdio calls
  succeed before the first one that fails (\<open>None\<close>: none fails); the program stops at
  the first failure it detects, so later ones never matter.
\<close>

record FILE =
  contents :: "byte list"
  posn :: nat
  calls_ok :: "nat option"

definition env_call :: "nat option \<Rightarrow> nat option option" where
  "env_call b = (case b of None \<Rightarrow> Some None | Some n \<Rightarrow> (case n of 0 \<Rightarrow> None | Suc m \<Rightarrow> Some (Some m)))"

definition fopen :: "nat option \<Rightarrow> string \<Rightarrow> FILE option" where
  "fopen env filename =
     (case env_call env of None \<Rightarrow> None
      | Some e \<Rightarrow> Some \<lparr>contents = [], posn = 0, calls_ok = e\<rparr>)"

definition fseek :: "FILE \<Rightarrow> nat \<Rightarrow> FILE option" where
  "fseek f off =
     (case env_call (calls_ok f) of None \<Rightarrow> None
      | Some e \<Rightarrow> Some (f\<lparr>posn := off, calls_ok := e\<rparr>))"

text \<open>
  Writing \<open>bs\<close> at offset \<open>p\<close> overwrites what is there and extends the file; a gap
  before \<open>p\<close> reads as zeros. Writing nothing changes nothing.
\<close>

definition store :: "byte list \<Rightarrow> nat \<Rightarrow> byte list \<Rightarrow> byte list" where
  "store cs p bs =
     (if bs = [] then cs
      else take p cs @ replicate (p - length cs) 0 @ bs @ drop (p + length bs) cs)"

definition fwrite :: "byte list \<Rightarrow> FILE \<Rightarrow> FILE option" where
  "fwrite bs f =
     (case env_call (calls_ok f) of None \<Rightarrow> None
      | Some e \<Rightarrow> Some (f\<lparr>contents := store (contents f) (posn f) bs,
                          posn := posn f + length bs, calls_ok := e\<rparr>))"

definition fputc :: "byte \<Rightarrow> FILE \<Rightarrow> FILE option" where
  "fputc c f = fwrite [c] f"

definition ftello :: "FILE \<Rightarrow> off_t" where
  "ftello f = of_nat (posn f)"

definition fread :: "nat \<Rightarrow> FILE \<Rightarrow> byte list \<times> FILE" where
  "fread n f =
     (case env_call (calls_ok f) of None \<Rightarrow> ([], f)
      | Some e \<Rightarrow>
          (let bs = take n (drop (posn f) (contents f))
           in (bs, f\<lparr>posn := posn f + length bs, calls_ok := e\<rparr>)))"

definition fclose :: "FILE \<Rightarrow> byte list option" where
  "fclose f = (case env_call (calls_ok f) of None \<Rightarrow> None | Some e \<Rightarrow> Some (contents f))"

section \<open>The layout planner\<close>

definition calculate_padding :: "size_t \<Rightarrow> size_t \<Rightarrow> failure + size_t" where
  "calculate_padding sz pad =
     (if pad = 0 then Inl Abort
      else Inr ((((sz + (pad - 1)) div pad) * pad) - sz))"

section \<open>The section serializer\<close>

text \<open>The loop of \<^verbatim>\<open>write_pad\<close> runs \<open>pad\<close> times; the count is what is left to write.\<close>

fun write_pad_loop :: "FILE \<Rightarrow> nat \<Rightarrow> failure + FILE" where
  "write_pad_loop f 0 = Inr f"
| "write_pad_loop f (Suc n) =
     (case fputc 0 f of
        None \<Rightarrow> Inl (Exit ''fwrite()'' EXIT_SUCCESS)
      | Some f' \<Rightarrow> write_pad_loop f' n)"

definition write_pad :: "FILE \<Rightarrow> size_t \<Rightarrow> failure + FILE" where
  "write_pad pFileOut pad = write_pad_loop pFileOut (unat pad)"

definition generate_header :: "platform \<Rightarrow> FILE \<Rightarrow> globals \<Rightarrow> failure + FILE \<times> globals" where
  "generate_header P pFileOut st =
     (case fseek pFileOut 0 of
        None \<Rightarrow> Inl (Exit ''fseek()'' EXIT_SUCCESS)
      | Some f1 \<Rightarrow>
          (case fwrite (bytes_BootImage P (bootImage st)) f1 of
             None \<Rightarrow> Inl (Exit ''fwrite()'' EXIT_SUCCESS)
           | Some f2 \<Rightarrow>
               bindE (calculate_padding (sizeof_BootImage P) PAD_SIZE) (\<lambda>p.
               bindE (write_pad f2 p) (\<lambda>f3.
               Inr (f3, st\<lparr>bootImagePaddedSize := ftello f3\<rparr>)))))"

text \<open>
  One pass of the loop of \<^verbatim>\<open>generate_chunks\<close> for index \<open>i\<close>, with the running
  \<^verbatim>\<open>cumulativeBlobSize\<close>; it gives the new running total.
\<close>

definition generate_chunks_body ::
  "platform \<Rightarrow> nat \<Rightarrow> size_t \<Rightarrow> FILE \<Rightarrow> globals \<Rightarrow> failure + size_t \<times> FILE \<times> globals" where
  "generate_chunks_body P i cumulativeBlobSize pFileOut st =
     (if length (chunkTable st) \<le> i then Inl Fault
      else
        bindE (calculate_padding (sizeof_BootChunkDesc P * (numChunks st + 1)) PAD_SIZE) (\<lambda>p1.
        bindE (calculate_padding (sizeof_BootZIChunkDesc P * (numZIChunks st + 1)) PAD_SIZE) (\<lambda>p2.
        bindE (calculate_padding cumulativeBlobSize PAD_SIZE) (\<lambda>p3.
          let e = chunkTable st ! i;
              c = (chunk e)\<lparr>loadAddr :=
                    chunkTableOffset (bootImage st)
                    + (numChunks st * sizeof_BootChunkDesc P)
                    + sizeof_BootChunkDesc P
                    + p1
                    + (numZIChunks st * sizeof_BootZIChunkDesc P)
                    + sizeof_BootZIChunkDesc P
                    + p2
                    + cumulativeBlobSize
                    + p3\<rparr>;
              st' = st\<lparr>chunkTable := (chunkTable st)[i := e\<lparr>chunk := c\<rparr>]\<rparr>
          in bindE (calculate_padding (chunk_size c) PAD_SIZE) (\<lambda>p4.
               (case fwrite (bytes_BootChunkDesc P c) pFileOut of
                  None \<Rightarrow> Inl (Exit ''fwrite()'' EXIT_SUCCESS)
                | Some f' \<Rightarrow> Inr (cumulativeBlobSize + (chunk_size c + p4), f', st')))))))"

text \<open>
  The counted loops \<^verbatim>\<open>for (i = 0; i < n; i++)\<close> of the unit never change their
  bound, so each runs \<open>n - i\<close> more passes: the first number is that count, the second
  is \<open>i\<close>. The loop of \<^verbatim>\<open>generate_chunks\<close> leaves the local \<^verbatim>\<open>cumulativeBlobSize\<close>,
  the stream and the globals; each pass hands the total of its body to the next.
\<close>

fun generate_chunks_loop ::
  "platform \<Rightarrow> nat \<Rightarrow> nat \<Rightarrow> size_t \<Rightarrow> FILE \<Rightarrow> globals
     \<Rightarrow> failure + size_t \<times> FILE \<times> globals" where
  "generate_chunks_loop P 0 i cumulativeBlobSize pFileOut st = Inr (cumulativeBlobSize, pFileOut, st)"
| "generate_chunks_loop P (Suc k) i cumulativeBlobSize pFileOut st =
     (case generate_chunks_body P i cumulativeBlobSize pFileOut st of
        Inl e \<Rightarrow> Inl e
      | Inr (c', f', st') \<Rightarrow> generate_chunks_loop P k (Suc i) c' f' st')"

definition chunk_sentinel :: HSS_BootChunkDesc where
  "chunk_sentinel = \<lparr>owner = 0, loadAddr = 0, execAddr = 0, chunk_size = 0, crc32 = 0\<rparr>"

definition generate_chunks :: "platform \<Rightarrow> FILE \<Rightarrow> globals \<Rightarrow> failure + FILE \<times> globals" where
  "generate_chunks P pFileOut st0 =
     (let st = st0\<lparr>bootImage := (bootImage st0)\<lparr>chunkTableOffset := ftello pFileOut\<rparr>\<rparr>
      in bindE (calculate_padding (sizeof_BootImage P) PAD_SIZE) (\<lambda>p0.
         if chunkTableOffset (bootImage st) \<noteq> sizeof_BootImage P + p0 then Inl Abort
         else
           bindE (generate_chunks_loop P (unat (numChunks st)) 0 0 pFileOut st)
             (\<lambda>(cumulativeBlobSize, f1, st1).
             (case fwrite (bytes_BootChunkDesc P chunk_sentinel) f1 of
                None \<Rightarrow> Inl (Exit ''fwrite()'' EXIT_SUCCESS)
              | Some f2 \<Rightarrow>
                  bindE (calculate_padding (sizeof_BootChunkDesc P * (numChunks st1 + 1)) PAD_SIZE) (\<lambda>p.
                  bindE (write_pad f2 p) (\<lambda>f3.
                  Inr (f3, st1\<lparr>chunkTablePaddedSize :=
                                  ftello f3 - chunkTableOffset (bootImage st1)\<rparr>)))))))"

definition generate_ziChunks_body :: "platform \<Rightarrow> nat \<Rightarrow> FILE \<Rightarrow> globals \<Rightarrow> failure + FILE" where
  "generate_ziChunks_body P i pFileOut st =
     (if length (ziChunkTable st) \<le> i then Inl Fault
      else
        (case fwrite (bytes_BootZIChunkDesc P (ziChunkTable st ! i)) pFileOut of
           None \<Rightarrow> Inl (Exit ''fwrite()'' EXIT_SUCCESS)
         | Some f' \<Rightarrow> Inr f'))"

fun generate_ziChunks_loop :: "platform \<Rightarrow> nat \<Rightarrow> nat \<Rightarrow> FILE \<Rightarrow> globals \<Rightarrow> failure + FILE" where
  "generate_ziChunks_loop P 0 i pFileOut st = Inr pFileOut"
| "generate_ziChunks_loop P (Suc k) i pFileOut st =
     (case generate_ziChunks_body P i pFileOut st of
        Inl e \<Rightarrow> Inl e
      | Inr f' \<Rightarrow> generate_ziChunks_loop P k (Suc i) f' st)"

definition ziChunk_sentinel :: HSS_BootZIChunkDesc where
  "ziChunk_sentinel = \<lparr>zi_owner = 0, zi_execAddr = 0, zi_size = 0\<rparr>"

definition generate_ziChunks :: "platform \<Rightarrow> FILE \<Rightarrow> globals \<Rightarrow> failure + FILE \<times> globals" where
  "generate_ziChunks P pFileOut st0 =
     (let st = st0\<lparr>bootImage := (bootImage st0)\<lparr>ziChunkTableOffset := ftello pFileOut\<rparr>\<rparr>
      in bindE (calculate_padding (sizeof_BootChunkDesc P * (numChunks st + 1)) PAD_SIZE) (\<lambda>p0.
         if ziChunkTableOffset (bootImage st) \<noteq>
              chunkTableOffset (bootImage st)
              + (numChunks st * sizeof_BootChunkDesc P)
              + sizeof_BootChunkDesc P
              + p0
         then Inl Abort
         else
           bindE (generate_ziChunks_loop P (unat (numZIChunks st)) 0 pFileOut st) (\<lambda>f1.
             (case fwrite (bytes_BootZIChunkDesc P ziChunk_sentinel) f1 of
                None \<Rightarrow> Inl (Exit ''fwrite()'' EXIT_SUCCESS)
              | Some f2 \<Rightarrow>
                  bindE (calculate_padding (sizeof_BootZIChunkDesc P * (numZIChunks st + 1)) PAD_SIZE) (\<lambda>p.
                  bindE (write_pad f2 p) (\<lambda>f3.
                  Inr (f3, st\<lparr>ziChunkTablePaddedSize :=
                                 ftello f3 - ziChunkTableOffset (bootImage st)\<rparr>)))))))"

text \<open>
  One pass of the loop of \<^verbatim>\<open>generate_blobs\<close>: write the buffer, release it, pad.
  \<^verbatim>\<open>fwrite\<close> reads \<open>size\<close> bytes through \<open>pBuffer\<close>.
\<close>

definition generate_blobs_body :: "platform \<Rightarrow> nat \<Rightarrow> FILE \<Rightarrow> globals \<Rightarrow> failure + FILE \<times> globals" where
  "generate_blobs_body P i pFileOut st =
     (if length (chunkTable st) \<le> i then Inl Fault
      else
        let e = chunkTable st ! i in
        (case pBuffer e of
           None \<Rightarrow> Inl Fault
         | Some buf \<Rightarrow>
             if length buf < unat (chunk_size (chunk e)) then Inl Fault
             else
               (case fwrite (take (unat (chunk_size (chunk e))) buf) pFileOut of
                  None \<Rightarrow> Inl (Exit ''fwrite()'' EXIT_SUCCESS)
                | Some f1 \<Rightarrow>
                    let st' = st\<lparr>chunkTable := (chunkTable st)[i := e\<lparr>pBuffer := None\<rparr>]\<rparr>
                    in bindE (calculate_padding (chunk_size (chunk e)) PAD_SIZE) (\<lambda>p.
                       bindE (write_pad f1 p) (\<lambda>f2. Inr (f2, st'))))))"

fun generate_blobs_loop :: "platform \<Rightarrow> nat \<Rightarrow> nat \<Rightarrow> FILE \<Rightarrow> globals \<Rightarrow> failure + FILE \<times> globals" where
  "generate_blobs_loop P 0 i pFileOut st = Inr (pFileOut, st)"
| "generate_blobs_loop P (Suc k) i pFileOut st =
     (case generate_blobs_body P i pFileOut st of
        Inl e \<Rightarrow> Inl e
      | Inr (f', st') \<Rightarrow> generate_blobs_loop P k (Suc i) f' st')"

text \<open>
  The sanity check of \<^verbatim>\<open>generate_blobs\<close> reads \<^verbatim>\<open>chunkTable[0]\<close> whatever
  \<^verbatim>\<open>numChunks\<close> is; with no chunk added the table is still the null pointer.
\<close>

definition generate_blobs :: "platform \<Rightarrow> FILE \<Rightarrow> globals \<Rightarrow> failure + FILE \<times> globals" where
  "generate_blobs P pFileOut st =
     (case chunkTable st of
        [] \<Rightarrow> Inl Fault
      | e0 # _ \<Rightarrow>
          bindE (calculate_padding (sizeof_BootZIChunkDesc P * (numZIChunks st + 1)) PAD_SIZE) (\<lambda>p0.
          if loadAddr (chunk e0) \<noteq>
               ziChunkTableOffset (bootImage st)
               + (numZIChunks st * sizeof_BootZIChunkDesc P)
               + sizeof_BootZIChunkDesc P
               + p0
          then Inl Abort
          else generate_blobs_loop P (unat (numChunks st)) 0 pFileOut st))"

section \<open>Integrity and signing\<close>

definition malloc :: "globals \<Rightarrow> globals option" where
  "malloc st = (case env_call (allocs_ok st) of None \<Rightarrow> None | Some e \<Rightarrow> Some (st\<lparr>allocs_ok := e\<rparr>))"

definition sign_payload ::
  "platform \<Rightarrow> FILE \<Rightarrow> string option \<Rightarrow> globals \<Rightarrow> failure + FILE \<times> globals" where
  "sign_payload P pFileOut private_key_filename st0 =
     (case private_key_filename of
        None \<Rightarrow> Inr (pFileOut, st0)
      | Some key \<Rightarrow>
          (case malloc st0 of
             None \<Rightarrow> Inl Abort
           | Some st \<Rightarrow>
               (case fseek pFileOut 0 of
                  None \<Rightarrow> Inl (Exit ''fseek()'' EXIT_SUCCESS)
                | Some f1 \<Rightarrow>
                    (case fread (unat (bootImageLength (bootImage st))) f1 of
                       (pEntirePayloadBuffer, f2) \<Rightarrow>
                         if length pEntirePayloadBuffer \<noteq> unat (bootImageLength (bootImage st))
                         then Inl Abort
                         else
                           let d = SHA384 P pEntirePayloadBuffer;
                               st1 = st\<lparr>bootImage := (bootImage st)
                                        \<lparr>signature := (signature (bootImage st))\<lparr>digest := d\<rparr>\<rparr>\<rparr>
                           in (case ECDSA_sign P key d of
                                 None \<Rightarrow> Inl Abort
                               | Some (r, s) \<Rightarrow>
                                   if 48 < length r \<or> 48 < length s then Inl Fault
                                   else
                                     let signatureBuffer =
                                           replicate (48 - length r) 0 @ r
                                           @ replicate (48 - length s) 0 @ s;
                                         st2 = st1\<lparr>bootImage := (bootImage st1)
                                                 \<lparr>signature := (signature (bootImage st1))
                                                    \<lparr>ecdsaSig := signatureBuffer\<rparr>\<rparr>\<rparr>
                                     in generate_header P f2 st2)))))"

definition generate_payload ::
  "platform \<Rightarrow> nat option \<Rightarrow> string \<Rightarrow> string option \<Rightarrow> globals \<Rightarrow> failure + byte list \<times> globals" where
  "generate_payload P env filename_output private_key_filename st =
     (case fopen env filename_output of
        None \<Rightarrow> Inl (Exit ''fopen()'' EXIT_FAILURE)
      | Some f0 \<Rightarrow>
          bindE (generate_header P f0 st) (\<lambda>(f1, st1).
          bindE (generate_chunks P f1 st1) (\<lambda>(f2, st2).
          bindE (generate_ziChunks P f2 st2) (\<lambda>(f3, st3).
            let st4 = st3\<lparr>bootImage := (bootImage st3)\<lparr>headerLength := ftello f3\<rparr>\<rparr>
            in if headerLength (bootImage st4) \<noteq>
                    bootImagePaddedSize st4 + chunkTablePaddedSize st4 + ziChunkTablePaddedSize st4
               then Inl Abort
               else
                 bindE (generate_blobs P f3 st4) (\<lambda>(f5, st5).
                   let st6 = st5\<lparr>bootImage := (bootImage st5)\<lparr>bootImageLength := ftello f5\<rparr>\<rparr>;
                       st7 = st6\<lparr>bootImage := (bootImage st6)
                                \<lparr>headerCrc := CRC32_calculate P (bytes_BootImage P (bootImage st6))\<rparr>\<rparr>
                   in bindE (generate_header P f5 st7) (\<lambda>(f8, st8).
                      bindE (sign_payload P f8 private_key_filename st8) (\<lambda>(f9, st9).
                        (case fclose f9 of
                           None \<Rightarrow> Inl (Exit ''fclose()'' EXIT_FAILURE)
                         | Some file \<Rightarrow> Inr (file, st9)))))))))"

section \<open>The table builder\<close>

definition realloc :: "globals \<Rightarrow> globals option" where
  "realloc st = (case env_call (allocs_ok st) of None \<Rightarrow> None | Some e \<Rightarrow> Some (st\<lparr>allocs_ok := e\<rparr>))"

text \<open>
  \<^verbatim>\<open>realloc\<close> gives the table one more slot, which the function clears and fills: the
  entry is appended.
\<close>

definition generate_add_chunk ::
  "HSS_BootChunkDesc \<Rightarrow> byte list option \<Rightarrow> globals \<Rightarrow> failure + size_t \<times> globals" where
  "generate_add_chunk c buf st =
     (if chunk_size c \<noteq> 0 then
        (case buf of
           None \<Rightarrow> Inl Abort
         | Some b \<Rightarrow>
             let st1 = st\<lparr>numChunks := numChunks st + 1\<rparr> in
             (case realloc st1 of
                None \<Rightarrow> Inl (Exit ''realloc()'' EXIT_FAILURE)
              | Some st2 \<Rightarrow>
                  let st3 = st2\<lparr>chunkTable := chunkTable st2 @ [\<lparr>chunk = c, pBuffer = buf\<rparr>]\<rparr>
                  in Inr (numChunks st3, st3)))
      else Inr (numChunks st, st))"

definition generate_add_ziChunk ::
  "HSS_BootZIChunkDesc \<Rightarrow> globals \<Rightarrow> failure + size_t \<times> globals" where
  "generate_add_ziChunk z st =
     (let st1 = st\<lparr>numZIChunks := numZIChunks st + 1\<rparr> in
      (case realloc st1 of
         None \<Rightarrow> Inl (Exit ''realloc()'' EXIT_FAILURE)
       | Some st2 \<Rightarrow>
           let st3 = st2\<lparr>ziChunkTable := ziChunkTable st2 @ [z]\<rparr>
           in Inr (numZIChunks st3, st3)))"

definition generate_init :: "platform \<Rightarrow> globals \<Rightarrow> globals" where
  "generate_init P st =
     st\<lparr>bootImage := (bootImage st)\<lparr>magic := mHSS_BOOT_MAGIC P, version := mHSS_BOOT_VERSION P\<rparr>\<rparr>"


section \<open>Callers of the builder\<close>

text \<open>
  The unit is driven from outside: the header and the tables are static objects, zero
  when the process starts; the caller initialises, adds chunks and ZI chunks, and
  finalises once. \<open>startup\<close> is the state at process start (the members of the header
  this unit never touches are whatever the caller makes them), \<open>builder_calls\<close> a
  sequence of additions that stops at the first call that does not return.
\<close>

definition startup :: "byte list \<Rightarrow> nat option \<Rightarrow> globals" where
  "startup other heap =
     \<lparr>bootImage =
        \<lparr>magic = 0, version = 0, headerLength = 0, headerCrc = 0, chunkTableOffset = 0,
         ziChunkTableOffset = 0, bootImageLength = 0,
         signature = \<lparr>digest = replicate 48 0, ecdsaSig = replicate 96 0\<rparr>,
         other_members = other\<rparr>,
      chunkTable = [], ziChunkTable = [], numChunks = 0, numZIChunks = 0,
      bootImagePaddedSize = 0, chunkTablePaddedSize = 0, ziChunkTablePaddedSize = 0,
      allocs_ok = heap\<rparr>"

datatype builder_call =
  Add_chunk HSS_BootChunkDesc "byte list option"
| Add_ziChunk HSS_BootZIChunkDesc

fun builder_calls :: "builder_call list \<Rightarrow> globals \<Rightarrow> failure + globals" where
  "builder_calls [] st = Inr st"
| "builder_calls (Add_chunk c buf # cs) st =
     (case generate_add_chunk c buf st of
        Inl e \<Rightarrow> Inl e
      | Inr (n, st') \<Rightarrow> builder_calls cs st')"
| "builder_calls (Add_ziChunk z # cs) st =
     (case generate_add_ziChunk z st of
        Inl e \<Rightarrow> Inl e
      | Inr (n, st') \<Rightarrow> builder_calls cs st')"

section \<open>Padding as the specification words it\<close>

text \<open>
  The smallest amount that brings \<open>n\<close> up to a multiple of \<open>boundary\<close>, on the
  natural numbers; \<open>pad8\<close> and \<open>padded8\<close> are that amount and the padded size for the
  boundary 8 the program uses, as \<^verbatim>\<open>size_t\<close> values.
\<close>

definition padding_needed :: "nat \<Rightarrow> nat \<Rightarrow> nat" where
  "padding_needed n boundary = (boundary - n mod boundary) mod boundary"

definition pad8 :: "size_t \<Rightarrow> size_t" where
  "pad8 sz = word_of_nat (padding_needed (unat sz) 8)"

definition padded8 :: "size_t \<Rightarrow> size_t" where
  "padded8 sz = sz + pad8 sz"

section \<open>What a build writes, stated apart from the code\<close>

text \<open>
  The definitions below describe the file and the header a complete build is expected to
  produce; the lemmas and theorems after them relate the code to them. \<open>stream\<close> is an
  output stream on which no call fails; \<open>wf_platform\<close> says that the object
  representation of each structure has the size \<^verbatim>\<open>sizeof\<close> gives for it.
\<close>

definition stream :: "byte list \<Rightarrow> nat \<Rightarrow> FILE" where
  "stream cs p = \<lparr>contents = cs, posn = p, calls_ok = None\<rparr>"

definition wf_platform :: "platform \<Rightarrow> bool" where
  "wf_platform P \<longleftrightarrow>
     (\<forall>h. length (bytes_BootImage P h) = unat (sizeof_BootImage P))
     \<and> (\<forall>c. length (bytes_BootChunkDesc P c) = unat (sizeof_BootChunkDesc P))
     \<and> (\<forall>z. length (bytes_BootZIChunkDesc P z) = unat (sizeof_BootZIChunkDesc P))"

definition first_blob_offset :: "platform \<Rightarrow> size_t \<Rightarrow> size_t \<Rightarrow> size_t \<Rightarrow> size_t" where
  "first_blob_offset P off n m =
     off + padded8 (sizeof_BootChunkDesc P * (n + 1)) + padded8 (sizeof_BootZIChunkDesc P * (m + 1))"

fun assign_loadAddr :: "size_t \<Rightarrow> chunkTableEntry list \<Rightarrow> chunkTableEntry list" where
  "assign_loadAddr a [] = []"
| "assign_loadAddr a (e # es) =
     e\<lparr>chunk := (chunk e)\<lparr>loadAddr := a\<rparr>\<rparr>
     # assign_loadAddr (a + padded8 (chunk_size (chunk e))) es"

definition header_bytes :: "platform \<Rightarrow> HSS_BootImage \<Rightarrow> byte list" where
  "header_bytes P h = bytes_BootImage P h @ replicate (unat (pad8 (sizeof_BootImage P))) 0"

definition chunk_table_bytes :: "platform \<Rightarrow> chunkTableEntry list \<Rightarrow> byte list" where
  "chunk_table_bytes P tbl =
     concat (map (\<lambda>e. bytes_BootChunkDesc P (chunk e)) tbl)
     @ bytes_BootChunkDesc P chunk_sentinel
     @ replicate (unat (pad8 (sizeof_BootChunkDesc P * (word_of_nat (length tbl) + 1)))) 0"

definition ziChunk_table_bytes :: "platform \<Rightarrow> HSS_BootZIChunkDesc list \<Rightarrow> byte list" where
  "ziChunk_table_bytes P zis =
     concat (map (bytes_BootZIChunkDesc P) zis)
     @ bytes_BootZIChunkDesc P ziChunk_sentinel
     @ replicate (unat (pad8 (sizeof_BootZIChunkDesc P * (word_of_nat (length zis) + 1)))) 0"

definition blob_bytes :: "chunkTableEntry \<Rightarrow> byte list" where
  "blob_bytes e =
     (case pBuffer e of
        None \<Rightarrow> []
      | Some buf \<Rightarrow>
          take (unat (chunk_size (chunk e))) buf
          @ replicate (unat (pad8 (chunk_size (chunk e)))) 0)"

definition release :: "chunkTableEntry \<Rightarrow> chunkTableEntry" where
  "release e = e\<lparr>pBuffer := None\<rparr>"

definition buffer_ok :: "chunkTableEntry \<Rightarrow> bool" where
  "buffer_ok e =
     (case pBuffer e of None \<Rightarrow> False | Some buf \<Rightarrow> unat (chunk_size (chunk e)) \<le> length buf)"

definition laid_out_header :: "platform \<Rightarrow> globals \<Rightarrow> HSS_BootImage" where
  "laid_out_header P st =
     (bootImage st)
       \<lparr>chunkTableOffset := padded8 (sizeof_BootImage P),
        ziChunkTableOffset :=
          padded8 (sizeof_BootImage P) + padded8 (sizeof_BootChunkDesc P * (numChunks st + 1)),
        headerLength :=
          padded8 (sizeof_BootImage P) + padded8 (sizeof_BootChunkDesc P * (numChunks st + 1))
          + padded8 (sizeof_BootZIChunkDesc P * (numZIChunks st + 1)),
        bootImageLength :=
          padded8 (sizeof_BootImage P) + padded8 (sizeof_BootChunkDesc P * (numChunks st + 1))
          + padded8 (sizeof_BootZIChunkDesc P * (numZIChunks st + 1))
          + sum_list (map (\<lambda>e. padded8 (chunk_size (chunk e))) (chunkTable st))\<rparr>"

definition checksummed_header :: "platform \<Rightarrow> globals \<Rightarrow> HSS_BootImage" where
  "checksummed_header P st =
     (laid_out_header P st)
       \<lparr>headerCrc := CRC32_calculate P (bytes_BootImage P (laid_out_header P st))\<rparr>"

definition addressed_chunks :: "platform \<Rightarrow> globals \<Rightarrow> chunkTableEntry list" where
  "addressed_chunks P st =
     assign_loadAddr
       (first_blob_offset P (padded8 (sizeof_BootImage P)) (numChunks st) (numZIChunks st))
       (chunkTable st)"

definition image_body :: "platform \<Rightarrow> globals \<Rightarrow> byte list" where
  "image_body P st =
     chunk_table_bytes P (addressed_chunks P st)
     @ ziChunk_table_bytes P (ziChunkTable st)
     @ concat (map blob_bytes (chunkTable st))"

definition checksummed_state :: "platform \<Rightarrow> globals \<Rightarrow> globals" where
  "checksummed_state P st =
     st\<lparr>bootImage := checksummed_header P st,
        chunkTable := map release (addressed_chunks P st),
        bootImagePaddedSize := padded8 (sizeof_BootImage P),
        chunkTablePaddedSize := padded8 (sizeof_BootChunkDesc P * (numChunks st + 1)),
        ziChunkTablePaddedSize := padded8 (sizeof_BootZIChunkDesc P * (numZIChunks st + 1))\<rparr>"

definition image_digest :: "platform \<Rightarrow> globals \<Rightarrow> byte list" where
  "image_digest P st =
     SHA384 P (take (unat (bootImageLength (checksummed_header P st)))
                 (header_bytes P (checksummed_header P st) @ image_body P st))"

definition final_header :: "platform \<Rightarrow> string option \<Rightarrow> globals \<Rightarrow> HSS_BootImage" where
  "final_header P key st =
     (case key of
        None \<Rightarrow> checksummed_header P st
      | Some k \<Rightarrow>
          (case ECDSA_sign P k (image_digest P st) of
             None \<Rightarrow> checksummed_header P st
           | Some (r, s) \<Rightarrow>
               (checksummed_header P st)
                 \<lparr>signature := (signature (checksummed_header P st))
                    \<lparr>digest := image_digest P st,
                     ecdsaSig := replicate (48 - length r) 0 @ r
                                 @ replicate (48 - length s) 0 @ s\<rparr>\<rparr>))"

definition signing_ok :: "platform \<Rightarrow> string option \<Rightarrow> globals \<Rightarrow> bool" where
  "signing_ok P key st =
     (case key of
        None \<Rightarrow> True
      | Some k \<Rightarrow>
          allocs_ok st \<noteq> Some 0
          \<and> (case ECDSA_sign P k (image_digest P st) of
               None \<Rightarrow> False
             | Some (r, s) \<Rightarrow> length r \<le> 48 \<and> length s \<le> 48))"

definition ready :: "globals \<Rightarrow> bool" where
  "ready st \<longleftrightarrow>
     chunkTable st \<noteq> []
     \<and> unat (numChunks st) = length (chunkTable st)
     \<and> unat (numZIChunks st) = length (ziChunkTable st)
     \<and> (\<forall>e \<in> set (chunkTable st). buffer_ok e)"

text \<open>
  What a sequence of calls adds: the chunks of non-zero size with their buffers, and the
  ZI chunks, in the order of the calls. \<open>buffer_holds\<close> says that a buffer passed with a
  chunk has at least \<open>size\<close> bytes.
\<close>

fun added_chunks :: "builder_call list \<Rightarrow> chunkTableEntry list" where
  "added_chunks [] = []"
| "added_chunks (Add_chunk c buf # cs) =
     (if chunk_size c \<noteq> 0 then \<lparr>chunk = c, pBuffer = buf\<rparr> # added_chunks cs
      else added_chunks cs)"
| "added_chunks (Add_ziChunk z # cs) = added_chunks cs"

fun added_ziChunks :: "builder_call list \<Rightarrow> HSS_BootZIChunkDesc list" where
  "added_ziChunks [] = []"
| "added_ziChunks (Add_chunk c buf # cs) = added_ziChunks cs"
| "added_ziChunks (Add_ziChunk z # cs) = z # added_ziChunks cs"

fun buffer_holds :: "builder_call \<Rightarrow> bool" where
  "buffer_holds (Add_chunk c buf) =
     (case buf of None \<Rightarrow> True | Some b \<Rightarrow> unat (chunk_size c) \<le> length b)"
| "buffer_holds (Add_ziChunk z) = True"

section \<open>A platform and a build to evaluate on\<close>

text \<open>
  A platform to evaluate the model on: LP64 little-endian object representations (a
  header of 208 bytes, descriptors of 40 and 24 bytes), with simple functions standing
  in for the checksum, the hash and the signature; every theorem below holds for any
  platform. \<open>sample_calls\<close> adds chunks of 10 and 20 bytes, a chunk of size 0 and one
  ZI chunk; \<open>sample_state\<close> is the state these calls build.
\<close>

fun le_bytes :: "nat \<Rightarrow> nat \<Rightarrow> byte list" where
  "le_bytes 0 n = []"
| "le_bytes (Suc k) n = word_of_nat (n mod 256) # le_bytes k (n div 256)"

definition fixed_bytes :: "nat \<Rightarrow> byte list \<Rightarrow> byte list" where
  "fixed_bytes k bs = take k (bs @ replicate k 0)"

definition lp64_BootChunkDesc :: "HSS_BootChunkDesc \<Rightarrow> byte list" where
  "lp64_BootChunkDesc c =
     le_bytes 4 (unat (owner c)) @ replicate 4 0
     @ le_bytes 8 (unat (loadAddr c)) @ le_bytes 8 (unat (execAddr c))
     @ le_bytes 8 (unat (chunk_size c))
     @ le_bytes 4 (unat (crc32 c)) @ replicate 4 0"

definition lp64_BootZIChunkDesc :: "HSS_BootZIChunkDesc \<Rightarrow> byte list" where
  "lp64_BootZIChunkDesc z =
     le_bytes 4 (unat (zi_owner z)) @ replicate 4 0
     @ le_bytes 8 (unat (zi_execAddr z)) @ le_bytes 8 (unat (zi_size z))"

definition lp64_BootImage :: "HSS_BootImage \<Rightarrow> byte list" where
  "lp64_BootImage h =
     le_bytes 4 (unat (magic h)) @ le_bytes 4 (unat (version h))
     @ le_bytes 8 (unat (headerLength h))
     @ le_bytes 4 (unat (headerCrc h)) @ replicate 4 0
     @ le_bytes 8 (unat (chunkTableOffset h)) @ le_bytes 8 (unat (ziChunkTableOffset h))
     @ fixed_bytes 16 (other_members h)
     @ le_bytes 8 (unat (bootImageLength h))
     @ fixed_bytes 48 (digest (signature h)) @ fixed_bytes 96 (ecdsaSig (signature h))"

definition test_platform :: platform where
  "test_platform =
     \<lparr>sizeof_BootImage = 208, sizeof_BootChunkDesc = 40, sizeof_BootZIChunkDesc = 24,
      bytes_BootImage = lp64_BootImage,
      bytes_BootChunkDesc = lp64_BootChunkDesc,
      bytes_BootZIChunkDesc = lp64_BootZIChunkDesc,
      mHSS_BOOT_MAGIC = 0xB007C0DE, mHSS_BOOT_VERSION = 1,
      CRC32_calculate = (\<lambda>bs. word_of_nat (sum_list (map unat bs))),
      SHA384 = (\<lambda>bs. replicate 48 (word_of_nat (length bs))),
      ECDSA_sign = (\<lambda>key d. if key = ''key.pem'' then Some ([1, 2, 3], take 48 d) else None)\<rparr>"

definition sample_calls :: "builder_call list" where
  "sample_calls =
     [Add_chunk \<lparr>owner = 1, loadAddr = 0, execAddr = 0x80000000, chunk_size = 10, crc32 = 7\<rparr>
        (Some (replicate 10 0xAA)),
      Add_ziChunk \<lparr>zi_owner = 1, zi_execAddr = 0x80001000, zi_size = 64\<rparr>,
      Add_chunk \<lparr>owner = 1, loadAddr = 0, execAddr = 0x80002000, chunk_size = 0, crc32 = 0\<rparr> None,
      Add_chunk \<lparr>owner = 2, loadAddr = 0, execAddr = 0x80003000, chunk_size = 20, crc32 = 9\<rparr>
        (Some (replicate 20 0xBB))]"

definition sample_state :: globals where
  "sample_state =
     \<lparr>bootImage =
        \<lparr>magic = 0xB007C0DE, version = 1, headerLength = 0, headerCrc = 0, chunkTableOffset = 0,
         ziChunkTableOffset = 0, bootImageLength = 0,
         signature = \<lparr>digest = replicate 48 0, ecdsaSig = replicate 96 0\<rparr>,
         other_members = []\<rparr>,
      chunkTable =
        [\<lparr>chunk = \<lparr>owner = 1, loadAddr = 0, execAddr = 0x80000000, chunk_size = 10, crc32 = 7\<rparr>,
          pBuffer = Some (replicate 10 0xAA)\<rparr>,
         \<lparr>chunk = \<lparr>owner = 2, loadAddr = 0, execAddr = 0x80003000, chunk_size = 20, crc32 = 9\<rparr>,
          pBuffer = Some (replicate 20 0xBB)\<rparr>],
      ziChunkTable = [\<lparr>zi_owner = 1, zi_execAddr = 0x80001000, zi_size = 64\<rparr>],
      numChunks = 2, numZIChunks = 1,
      bootImagePaddedSize = 0, chunkTablePaddedSize = 0, ziChunkTablePaddedSize = 0,
      allocs_ok = None\<rparr>"

section \<open>Stops inside the serializer\<close>

text \<open>
  The ways a run stops inside the serializer once the file is open: a failed assertion,
  a bad read, or a reported seek or write failure, whose exit status is \<^verbatim>\<open>EXIT_SUCCESS\<close>.
\<close>

definition stream_stop :: "failure \<Rightarrow> bool" where
  "stream_stop e \<longleftrightarrow>
     e = Abort \<or> e = Fault
     \<or> e = Exit ''fseek()'' EXIT_SUCCESS \<or> e = Exit ''fwrite()'' EXIT_SUCCESS"

section \<open>Arithmetic of the padding\<close>


lemma nat_round_up:
  fixes s p :: nat
  assumes "0 < p"
  shows "s \<le> (s + (p - 1)) div p * p" and "(s + (p - 1)) div p * p - s < p"
proof -
  let ?t = "s + (p - 1)"
  have a: "?t div p * p + ?t mod p = ?t" by simp
  have b: "?t mod p < p" using assms by simp
  from a b assms show "s \<le> ?t div p * p" by linarith
  from a b assms show "?t div p * p - s < p" by linarith
qed

lemma unat_round_up:
  fixes sz pad :: size_t
  assumes p: "pad \<noteq> 0" and n: "unat sz + (unat pad - 1) < 2 ^ 64"
  shows "unat ((((sz + (pad - 1)) div pad) * pad) - sz) =
         (unat sz + (unat pad - 1)) div unat pad * unat pad - unat sz"
proof -
  have p0: "0 < unat pad" using p by (simp add: unat_gt_0)
  have p1: "unat (pad - 1) = unat pad - 1" using p by (simp add: unat_minus_one)
  have t: "unat (sz + (pad - 1)) = unat sz + (unat pad - 1)"
    using n p1 by (simp add: unat_word_ariths)
  have q: "unat ((sz + (pad - 1)) div pad) = (unat sz + (unat pad - 1)) div unat pad"
    by (simp add: unat_div t)
  have le: "(unat sz + (unat pad - 1)) div unat pad * unat pad \<le> unat sz + (unat pad - 1)"
    by simp
  have m: "unat (((sz + (pad - 1)) div pad) * pad) =
           (unat sz + (unat pad - 1)) div unat pad * unat pad"
  proof -
    have "unat (((sz + (pad - 1)) div pad) * pad) =
          (unat ((sz + (pad - 1)) div pad) * unat pad) mod 2 ^ 64"
      by (simp add: unat_word_ariths)
    also have "\<dots> = ((unat sz + (unat pad - 1)) div unat pad * unat pad) mod 2 ^ 64"
      by (simp only: q)
    also have "\<dots> = (unat sz + (unat pad - 1)) div unat pad * unat pad"
      using le n by (intro mod_less) linarith
    finally show ?thesis .
  qed
  have ge: "unat sz \<le> unat (((sz + (pad - 1)) div pad) * pad)"
    using nat_round_up(1)[OF p0, of "unat sz"] m by simp
  then have "sz \<le> ((sz + (pad - 1)) div pad) * pad" by (simp add: word_le_nat_alt)
  then show ?thesis using m by (simp add: unat_sub)
qed

lemma unat_round_up_wrap:
  fixes sz pad :: size_t
  assumes p: "pad \<noteq> 0" and n: "2 ^ 64 \<le> unat sz + (unat pad - 1)"
  shows "unat ((((sz + (pad - 1)) div pad) * pad) - sz) = 2 ^ 64 - unat sz"
proof -
  have p1: "unat (pad - 1) = unat pad - 1" using p by (simp add: unat_minus_one)
  have bs: "unat sz < 2 ^ 64" and bp: "unat pad < 2 ^ 64"
    using unsigned_less[of sz, where ?'a = nat] unsigned_less[of pad, where ?'a = nat] by simp_all
  have t: "unat (sz + (pad - 1)) = unat sz + (unat pad - 1) - 2 ^ 64"
  proof -
    have "unat (sz + (pad - 1)) = (unat sz + (unat pad - 1)) mod 2 ^ 64"
      using p1 by (simp add: unat_word_ariths)
    also have "\<dots> = (unat sz + (unat pad - 1) - 2 ^ 64) mod 2 ^ 64"
      using n by (simp add: le_mod_geq)
    also have "\<dots> = unat sz + (unat pad - 1) - 2 ^ 64"
      using bs bp by (intro mod_less) linarith
    finally show ?thesis .
  qed
  have "unat (sz + (pad - 1)) < unat pad" using t bs bp n by linarith
  then have "sz + (pad - 1) < pad" by (simp add: word_less_nat_alt)
  then have "(sz + (pad - 1)) div pad = 0" by (simp add: div_word_less)
  then have e: "(((sz + (pad - 1)) div pad) * pad) - sz = 0 - sz" by simp
  have s0: "0 < unat sz" using n bp by linarith
  have "unat (0 - sz) = 2 ^ 64 - unat sz"
    using s0 unat_sub_if_size[of 0 sz] by (simp add: word_size)
  then show ?thesis using e by simp
qed

lemma mod_sum_zero_cases:
  fixes m r p :: nat
  assumes "m < p" "r < p" "(m + r) mod p = 0"
  shows "(m = 0 \<and> r = 0) \<or> m + r = p"
proof -
  from assms(3) obtain q where q: "m + r = p * q"
    by (auto simp: mod_eq_0_iff_dvd dvd_def)
  consider "q = 0" | "q = 1" | "2 \<le> q" by linarith
  then show ?thesis
  proof cases
    case 1 with q show ?thesis by simp
  next
    case 2 with q show ?thesis by simp
  next
    case 3
    then have "p * 2 \<le> p * q" by (rule mult_le_mono2)
    with q assms show ?thesis by linarith
  qed
qed

lemma padding_needed_unique:
  assumes "r < p" "(s + r) mod p = 0"
  shows "r = padding_needed s p"
proof -
  have p: "0 < p" using assms by simp
  have mp: "s mod p < p" using p by simp
  have "(s mod p + r) mod p = 0" using assms(2) by (simp only: mod_add_left_eq)
  from mod_sum_zero_cases[OF mp assms(1) this]
  show ?thesis
  proof
    assume "s mod p = 0 \<and> r = 0"
    then show ?thesis by (simp add: padding_needed_def)
  next
    assume "s mod p + r = p"
    then have "p - s mod p = r" by linarith
    then show ?thesis using assms(1) by (simp add: padding_needed_def)
  qed
qed

lemma round_up_padding_needed:
  fixes s p :: nat
  assumes "0 < p"
  shows "(s + (p - 1)) div p * p - s = padding_needed s p"
proof -
  define u where "u = (s + (p - 1)) div p * p"
  have le: "s \<le> u" unfolding u_def by (rule nat_round_up(1)[OF assms])
  have lt: "u - s < p" unfolding u_def by (rule nat_round_up(2)[OF assms])
  have "p dvd u" by (simp add: u_def)
  then have "(s + (u - s)) mod p = 0" using le by simp
  from padding_needed_unique[OF lt this] show ?thesis by (simp only: u_def)
qed

lemma padding_needed_props:
  assumes "0 < p"
  shows "padding_needed s p < p" and "(s + padding_needed s p) mod p = 0"
    and "(s + k) mod p = 0 \<Longrightarrow> padding_needed s p \<le> k"
proof -
  let ?r = "padding_needed s p"
  show lt: "?r < p" using assms by (simp add: padding_needed_def)
  show z: "(s + ?r) mod p = 0"
  proof -
    have "(s + ?r) mod p = (s mod p + (p - s mod p) mod p) mod p"
      by (simp only: padding_needed_def mod_add_left_eq)
    also have "\<dots> = (s mod p + (p - s mod p)) mod p"
      by (simp only: mod_add_right_eq)
    also have "\<dots> = 0" using assms by (simp add: less_imp_le)
    finally show ?thesis .
  qed
  show "?r \<le> k" if k: "(s + k) mod p = 0"
  proof (rule ccontr)
    assume "\<not> ?r \<le> k"
    then have kr: "k < ?r" by simp
    have "p dvd s + ?r" "p dvd s + k" using z k by (simp_all add: mod_eq_0_iff_dvd)
    then have "p dvd (s + ?r) - (s + k)" by (rule dvd_diff_nat)
    then have "p dvd ?r - k" by simp
    then have "p \<le> ?r - k" using kr by (intro dvd_imp_le) simp_all
    with lt show False by linarith
  qed
qed

lemma calculate_padding_unat:
  assumes p: "pad \<noteq> 0"
    and n: "unat sz + (unat pad - 1) < 2 ^ 64 \<or> unat pad dvd 2 ^ 64"
  shows "calculate_padding sz pad =
           Inr (word_of_nat (padding_needed (unat sz) (unat pad)))"
proof -
  let ?r = "(((sz + (pad - 1)) div pad) * pad) - sz"
  have p0: "0 < unat pad" using p by (simp add: unat_gt_0)
  have "unat ?r = padding_needed (unat sz) (unat pad)"
  proof (cases "unat sz + (unat pad - 1) < 2 ^ 64")
    case True
    then show ?thesis
      using unat_round_up[OF p True] round_up_padding_needed[OF p0, of "unat sz"] by simp
  next
    case False
    then have w: "2 ^ 64 \<le> unat sz + (unat pad - 1)" by simp
    from False n have d: "unat pad dvd 2 ^ 64" by simp
    have bs: "unat sz < 2 ^ 64" using unsigned_less[of sz, where ?'a = nat] by simp
    have u: "unat ?r = 2 ^ 64 - unat sz" by (rule unat_round_up_wrap[OF p w])
    have lt: "2 ^ 64 - unat sz < unat pad" using w p0 by linarith
    have "unat sz + (2 ^ 64 - unat sz) = 2 ^ 64" using bs by simp
    then have "(unat sz + (2 ^ 64 - unat sz)) mod unat pad = 0" using d by simp
    from padding_needed_unique[OF lt this] u show ?thesis by simp
  qed
  then have "?r = word_of_nat (padding_needed (unat sz) (unat pad))"
    by (metis of_nat_unat ucast_id)
  then show ?thesis using p by (simp add: calculate_padding_def)
qed

lemma calculate_padding_PAD_SIZE: "calculate_padding sz PAD_SIZE = Inr (pad8 sz)"
proof -
  have "(8::nat) dvd 2 ^ 64" by (simp add: dvd_def)
  then have "unat PAD_SIZE dvd 2 ^ 64" by (simp add: PAD_SIZE_def)
  then show ?thesis
    using calculate_padding_unat[of PAD_SIZE sz] by (simp add: PAD_SIZE_def pad8_def)
qed

lemma unat_pad8: "unat (pad8 sz) = padding_needed (unat sz) 8"
proof -
  have "padding_needed (unat sz) 8 < 8" by (rule padding_needed_props(1)) simp
  then show ?thesis by (simp add: pad8_def unat_of_nat)
qed

lemma dvd8_unat_add:
  fixes a b :: size_t
  assumes "8 dvd unat a + unat b"
  shows "8 dvd unat (a + b)"
proof -
  have "(8::nat) dvd 2 ^ 64" by (simp add: dvd_def)
  then have "8 dvd (unat a + unat b) mod 2 ^ 64" using assms by (simp add: dvd_mod)
  then show ?thesis by (simp add: unat_word_ariths)
qed

lemma dvd8_padded8: "8 dvd unat (padded8 sz)"
  unfolding padded8_def
  by (rule dvd8_unat_add) (simp add: unat_pad8 mod_eq_0_iff_dvd [symmetric] padding_needed_props(2))

lemma pad8_aligned: "8 dvd unat sz \<Longrightarrow> pad8 sz = 0"
  by (simp add: pad8_def padding_needed_def mod_eq_0_iff_dvd [symmetric])


section \<open>The stream without failures\<close>

lemma bindE_Inr [simp]: "bindE (Inr x) k = k x"
  by (simp add: bindE_def)

lemma bindE_Inl [simp]: "bindE (Inl e) k = Inl e"
  by (simp add: bindE_def)

lemma env_call_None [simp]: "env_call None = Some None"
  by (simp add: env_call_def)

lemma store_within:
  "p \<le> length cs \<Longrightarrow> store cs p bs = take p cs @ bs @ drop (p + length bs) cs"
  by (simp add: store_def)

lemma store_end [simp]: "store cs (length cs) bs = cs @ bs"
  by (simp add: store_within)

lemma store_start: "store cs 0 bs = bs @ drop (length bs) cs"
  by (simp add: store_within)

lemma store_store:
  assumes "p \<le> length cs"
  shows "store (store cs p a) (p + length a) b = store cs p (a @ b)"
proof -
  have s1: "store cs p a = (take p cs @ a) @ drop (p + length a) cs"
    using assms by (simp add: store_within)
  have l: "length (take p cs @ a) = p + length a"
    using assms by simp
  have le: "p + length a \<le> length (store cs p a)"
    unfolding s1 using l by simp
  have t: "take (p + length a) (store cs p a) = take p cs @ a"
    unfolding s1 using l by simp
  have d: "drop (p + length a + length b) (store cs p a) = drop (p + length a + length b) cs"
  proof -
    have "drop (p + length a + length b) (store cs p a)
          = drop (length b) (drop (p + length a) (store cs p a))"
      by (simp add: add.commute)
    also have "drop (p + length a) (store cs p a) = drop (p + length a) cs"
      unfolding s1 using l by simp
    finally show ?thesis by (simp add: add.commute)
  qed
  have "store (store cs p a) (p + length a) b
        = take (p + length a) (store cs p a) @ b @ drop (p + length a + length b) (store cs p a)"
    by (rule store_within[OF le])
  also have "\<dots> = take p cs @ (a @ b) @ drop (p + length (a @ b)) cs"
    unfolding t d by (simp add: add.assoc)
  also have "\<dots> = store cs p (a @ b)"
    by (rule store_within[OF assms, symmetric])
  finally show ?thesis .
qed

lemma fseek_stream [simp]: "fseek (stream cs p) q = Some (stream cs q)"
  by (simp add: fseek_def stream_def)

lemma fwrite_stream [simp]:
  "fwrite bs (stream cs p) = Some (stream (store cs p bs) (p + length bs))"
  by (simp add: fwrite_def stream_def)

lemma ftello_stream [simp]: "ftello (stream cs p) = word_of_nat p"
  by (simp add: ftello_def stream_def)

lemma fclose_stream [simp]: "fclose (stream cs p) = Some cs"
  by (simp add: fclose_def stream_def)

lemma fread_stream [simp]:
  "fread n (stream cs p) = (take n (drop p cs), stream cs (p + length (take n (drop p cs))))"
  by (simp add: fread_def stream_def Let_def)

lemma fopen_None [simp]: "fopen None name = Some (stream [] 0)"
  by (simp add: fopen_def stream_def)

lemma write_pad_loop_stream:
  "p \<le> length cs \<Longrightarrow>
   write_pad_loop (stream cs p) n = Inr (stream (store cs p (replicate n 0)) (p + n))"
proof (induction n arbitrary: cs p)
  case 0
  then show ?case by (simp add: store_def)
next
  case (Suc n)
  have le: "p + 1 \<le> length (store cs p [0])"
    using Suc.prems by (simp add: store_within)
  have "store (store cs p [0]) (p + length [0::byte]) (replicate n 0) = store cs p ([0] @ replicate n 0)"
    by (rule store_store[OF Suc.prems])
  then show ?case using Suc.IH[OF le] by (simp add: fputc_def)
qed

lemma fwrite_end:
  "p = length cs \<Longrightarrow> fwrite bs (stream cs p) = Some (stream (cs @ bs) (p + length bs))"
  by simp

lemma write_pad_end:
  "p = length cs \<Longrightarrow>
   write_pad (stream cs p) n = Inr (stream (cs @ replicate (unat n) 0) (p + unat n))"
  by (simp add: write_pad_def write_pad_loop_stream)

lemma wf_lengths [simp]:
  assumes "wf_platform P"
  shows "length (bytes_BootImage P h) = unat (sizeof_BootImage P)"
    and "length (bytes_BootChunkDesc P c) = unat (sizeof_BootChunkDesc P)"
    and "length (bytes_BootZIChunkDesc P z) = unat (sizeof_BootZIChunkDesc P)"
  using assms by (simp_all add: wf_platform_def)

lemma generate_header_stream:
  assumes wf: "wf_platform P"
  shows "generate_header P (stream cs p) st =
           Inr (stream (store cs 0 (bytes_BootImage P (bootImage st)
                                    @ replicate (unat (pad8 (sizeof_BootImage P))) 0))
                       (unat (sizeof_BootImage P) + unat (pad8 (sizeof_BootImage P))),
                st\<lparr>bootImagePaddedSize :=
                     word_of_nat (unat (sizeof_BootImage P) + unat (pad8 (sizeof_BootImage P)))\<rparr>)"
proof -
  let ?h = "bytes_BootImage P (bootImage st)"
  let ?n = "unat (pad8 (sizeof_BootImage P))"
  have le: "0 + length ?h \<le> length (store cs 0 ?h)"
    by (simp add: store_start)
  have "write_pad_loop (stream (store cs 0 ?h) (0 + length ?h)) ?n
        = Inr (stream (store (store cs 0 ?h) (0 + length ?h) (replicate ?n 0)) (0 + length ?h + ?n))"
    by (rule write_pad_loop_stream[OF le])
  moreover have "store (store cs 0 ?h) (0 + length ?h) (replicate ?n 0) = store cs 0 (?h @ replicate ?n 0)"
    by (rule store_store) simp
  ultimately show ?thesis
    using wf by (simp add: generate_header_def calculate_padding_PAD_SIZE write_pad_def)
qed

lemma first_blob_offset_code:
  "off + n * szC + szC + pad8 (szC * (n + 1)) + m * szZ + szZ + pad8 (szZ * (m + 1))
   = off + padded8 (szC * (n + 1)) + padded8 (szZ * (m + 1))"
  by (simp add: padded8_def algebra_simps)

lemma generate_chunks_body_stream:
  assumes wf: "wf_platform P" and i: "i < length (chunkTable st)"
    and al: "8 dvd unat cum" and p: "p = length cs"
  shows "generate_chunks_body P i cum (stream cs p) st =
           Inr (cum + padded8 (chunk_size (chunk (chunkTable st ! i))),
                stream (cs @ bytes_BootChunkDesc P
                               ((chunk (chunkTable st ! i))\<lparr>loadAddr :=
                                  first_blob_offset P (chunkTableOffset (bootImage st))
                                    (numChunks st) (numZIChunks st) + cum\<rparr>))
                       (p + unat (sizeof_BootChunkDesc P)),
                st\<lparr>chunkTable := (chunkTable st)
                     [i := (chunkTable st ! i)\<lparr>chunk := (chunk (chunkTable st ! i))\<lparr>loadAddr :=
                                  first_blob_offset P (chunkTableOffset (bootImage st))
                                    (numChunks st) (numZIChunks st) + cum\<rparr>\<rparr>]\<rparr>)"
proof -
  have z: "pad8 cum = 0" by (rule pad8_aligned[OF al])
  show ?thesis
    using wf i p
    by (simp add: generate_chunks_body_def calculate_padding_PAD_SIZE z Let_def
        first_blob_offset_def first_blob_offset_code padded8_def)
qed

lemma generate_chunks_loop_stream:
  assumes wf: "wf_platform P"
  shows "k + i = length (chunkTable st) \<Longrightarrow> 8 dvd unat cum \<Longrightarrow> p = length cs \<Longrightarrow>
     generate_chunks_loop P k i cum (stream cs p) st =
       Inr (cum + sum_list (map (\<lambda>e. padded8 (chunk_size (chunk e))) (drop i (chunkTable st))),
            stream (cs @ concat (map (\<lambda>e. bytes_BootChunkDesc P (chunk e))
                      (assign_loadAddr
                         (first_blob_offset P (chunkTableOffset (bootImage st))
                            (numChunks st) (numZIChunks st) + cum)
                         (drop i (chunkTable st)))))
                   (p + k * unat (sizeof_BootChunkDesc P)),
            st\<lparr>chunkTable := take i (chunkTable st)
                 @ assign_loadAddr
                     (first_blob_offset P (chunkTableOffset (bootImage st))
                        (numChunks st) (numZIChunks st) + cum)
                     (drop i (chunkTable st))\<rparr>)"
proof (induction k arbitrary: i cum cs p st)
  case 0
  then show ?case by simp
next
  case (Suc k)
  let ?tbl = "chunkTable st"
  let ?B = "first_blob_offset P (chunkTableOffset (bootImage st)) (numChunks st) (numZIChunks st)"
  let ?e = "?tbl ! i"
  let ?c = "(chunk ?e)\<lparr>loadAddr := ?B + cum\<rparr>"
  let ?e' = "?e\<lparr>chunk := ?c\<rparr>"
  let ?st' = "st\<lparr>chunkTable := ?tbl[i := ?e']\<rparr>"
  let ?cum' = "cum + padded8 (chunk_size (chunk ?e))"
  have i: "i < length ?tbl" using Suc.prems(1) by simp
  have body: "generate_chunks_body P i cum (stream cs p) st =
      Inr (?cum', stream (cs @ bytes_BootChunkDesc P ?c) (p + unat (sizeof_BootChunkDesc P)), ?st')"
    by (rule generate_chunks_body_stream[OF wf i Suc.prems(2) Suc.prems(3)])
  have len: "k + Suc i = length (chunkTable ?st')" using Suc.prems(1) by simp
  have al: "8 dvd unat ?cum'"
    by (rule dvd8_unat_add) (simp add: Suc.prems(2) dvd8_padded8)
  have pos: "p + unat (sizeof_BootChunkDesc P) = length (cs @ bytes_BootChunkDesc P ?c)"
    using wf Suc.prems(3) by simp
  have dr: "drop i ?tbl = ?e # drop (Suc i) ?tbl"
    using i by (simp add: Cons_nth_drop_Suc)
  have tk: "take (Suc i) (?tbl[i := ?e']) = take i ?tbl @ [?e']"
    using i by (simp add: take_Suc_conv_app_nth)
  have IH: "generate_chunks_loop P k (Suc i) ?cum'
              (stream (cs @ bytes_BootChunkDesc P ?c) (p + unat (sizeof_BootChunkDesc P))) ?st' =
       Inr (?cum' + sum_list (map (\<lambda>e. padded8 (chunk_size (chunk e))) (drop (Suc i) ?tbl)),
            stream ((cs @ bytes_BootChunkDesc P ?c) @ concat (map (\<lambda>e. bytes_BootChunkDesc P (chunk e))
                      (assign_loadAddr (?B + ?cum') (drop (Suc i) ?tbl))))
                   (p + unat (sizeof_BootChunkDesc P) + k * unat (sizeof_BootChunkDesc P)),
            ?st'\<lparr>chunkTable := take (Suc i) (?tbl[i := ?e'])
                 @ assign_loadAddr (?B + ?cum') (drop (Suc i) ?tbl)\<rparr>)"
    using Suc.IH[OF len al pos] by simp
  show ?case
    by (simp add: body IH dr tk add.assoc)
qed

lemma length_assign_loadAddr [simp]: "length (assign_loadAddr a es) = length es"
  by (induction es arbitrary: a) simp_all

lemma length_concat_const:
  "(\<And>x. length (f x) = c) \<Longrightarrow> length (concat (map f xs)) = length xs * c"
  by (induction xs) simp_all

lemma numChunks_of_nat: "unat (n :: size_t) = k \<Longrightarrow> word_of_nat k = n"
  by (metis of_nat_unat ucast_id)

lemma length_chunk_table_bytes:
  assumes "wf_platform P"
  shows "length (chunk_table_bytes P tbl) =
           length tbl * unat (sizeof_BootChunkDesc P) + unat (sizeof_BootChunkDesc P)
           + unat (pad8 (sizeof_BootChunkDesc P * (word_of_nat (length tbl) + 1)))"
  using assms by (simp add: chunk_table_bytes_def length_concat_const)

lemma word_length_chunk_table_bytes:
  assumes "wf_platform P"
  shows "(word_of_nat (length (chunk_table_bytes P tbl)) :: size_t) =
           padded8 (sizeof_BootChunkDesc P * (word_of_nat (length tbl) + 1))"
  by (simp add: length_chunk_table_bytes[OF assms] padded8_def algebra_simps)

lemma length_ziChunk_table_bytes:
  assumes "wf_platform P"
  shows "length (ziChunk_table_bytes P zis) =
           length zis * unat (sizeof_BootZIChunkDesc P) + unat (sizeof_BootZIChunkDesc P)
           + unat (pad8 (sizeof_BootZIChunkDesc P * (word_of_nat (length zis) + 1)))"
  using assms by (simp add: ziChunk_table_bytes_def length_concat_const)

lemma word_length_ziChunk_table_bytes:
  assumes "wf_platform P"
  shows "(word_of_nat (length (ziChunk_table_bytes P zis)) :: size_t) =
           padded8 (sizeof_BootZIChunkDesc P * (word_of_nat (length zis) + 1))"
  by (simp add: length_ziChunk_table_bytes[OF assms] padded8_def algebra_simps)

lemma length_header_bytes:
  assumes "wf_platform P"
  shows "length (header_bytes P h) = unat (sizeof_BootImage P) + unat (pad8 (sizeof_BootImage P))"
  using assms by (simp add: header_bytes_def)

lemma word_length_header_bytes:
  assumes "wf_platform P"
  shows "(word_of_nat (length (header_bytes P h)) :: size_t) = padded8 (sizeof_BootImage P)"
  by (simp add: length_header_bytes[OF assms] padded8_def)

lemma generate_chunks_stream:
  assumes wf: "wf_platform P"
    and n: "unat (numChunks st) = length (chunkTable st)"
    and p: "p = length cs"
    and h: "length cs = length (header_bytes P h0)"
  shows "generate_chunks P (stream cs p) st =
     Inr (stream (cs @ chunk_table_bytes P
                    (assign_loadAddr
                       (first_blob_offset P (padded8 (sizeof_BootImage P)) (numChunks st) (numZIChunks st))
                       (chunkTable st)))
                 (p + length (chunk_table_bytes P (chunkTable st))),
          st\<lparr>bootImage := (bootImage st)\<lparr>chunkTableOffset := padded8 (sizeof_BootImage P)\<rparr>,
             chunkTable :=
               assign_loadAddr
                 (first_blob_offset P (padded8 (sizeof_BootImage P)) (numChunks st) (numZIChunks st))
                 (chunkTable st),
             chunkTablePaddedSize := padded8 (sizeof_BootChunkDesc P * (numChunks st + 1))\<rparr>)"
proof -
  let ?S = "sizeof_BootImage P"
  let ?st = "st\<lparr>bootImage := (bootImage st)\<lparr>chunkTableOffset := padded8 ?S\<rparr>\<rparr>"
  let ?A = "first_blob_offset P (padded8 ?S) (numChunks st) (numZIChunks st)"
  let ?tbl' = "assign_loadAddr ?A (chunkTable st)"
  let ?body = "concat (map (\<lambda>e. bytes_BootChunkDesc P (chunk e)) ?tbl')"
  let ?k = "length (chunkTable st)"
  let ?c = "unat (sizeof_BootChunkDesc P)"
  have nw: "word_of_nat ?k = numChunks st" by (rule numChunks_of_nat[OF n])
  have off: "(word_of_nat p :: size_t) = padded8 ?S"
    using p h word_length_header_bytes[OF wf, of h0] by simp
  have k: "?k + 0 = length (chunkTable ?st)" by simp
  have "generate_chunks_loop P ?k 0 0 (stream cs p) ?st =
       Inr (0 + sum_list (map (\<lambda>e. padded8 (chunk_size (chunk e))) (drop 0 (chunkTable ?st))),
            stream (cs @ concat (map (\<lambda>e. bytes_BootChunkDesc P (chunk e))
                      (assign_loadAddr
                         (first_blob_offset P (chunkTableOffset (bootImage ?st))
                            (numChunks ?st) (numZIChunks ?st) + 0)
                         (drop 0 (chunkTable ?st)))))
                   (p + ?k * ?c),
            ?st\<lparr>chunkTable := take 0 (chunkTable ?st)
                 @ assign_loadAddr
                     (first_blob_offset P (chunkTableOffset (bootImage ?st))
                        (numChunks ?st) (numZIChunks ?st) + 0)
                     (drop 0 (chunkTable ?st))\<rparr>)"
    by (rule generate_chunks_loop_stream[OF wf k _ p]) simp
  then have loop: "generate_chunks_loop P ?k 0 0 (stream cs p) ?st =
       Inr (sum_list (map (\<lambda>e. padded8 (chunk_size (chunk e))) (chunkTable st)),
            stream (cs @ ?body) (p + ?k * ?c), ?st\<lparr>chunkTable := ?tbl'\<rparr>)"
    by simp
  have pos1: "p + ?k * ?c = length (cs @ ?body)"
    using wf p by (simp add: length_concat_const)
  let ?cs2 = "cs @ ?body @ bytes_BootChunkDesc P chunk_sentinel"
  let ?n = "pad8 (sizeof_BootChunkDesc P * (numChunks st + 1))"
  have w1: "fwrite (bytes_BootChunkDesc P chunk_sentinel) (stream (cs @ ?body) (p + ?k * ?c))
            = Some (stream ?cs2 (p + ?k * ?c + ?c))"
    using fwrite_end[OF pos1, of "bytes_BootChunkDesc P chunk_sentinel"] wf by simp
  have pos2: "p + ?k * ?c + ?c = length ?cs2"
    using wf pos1 by simp
  have pad: "write_pad (stream ?cs2 (p + ?k * ?c + ?c)) ?n
        = Inr (stream (cs @ ?body @ bytes_BootChunkDesc P chunk_sentinel @ replicate (unat ?n) 0)
                 (p + ?k * ?c + ?c + unat ?n))"
    using write_pad_end[OF pos2, of ?n] by simp
  have ctb: "cs @ chunk_table_bytes P ?tbl' =
      cs @ ?body @ bytes_BootChunkDesc P chunk_sentinel @ replicate (unat ?n) 0"
    by (simp add: chunk_table_bytes_def nw)
  have len: "p + length (chunk_table_bytes P (chunkTable st)) = p + ?k * ?c + ?c + unat ?n"
    by (simp add: length_chunk_table_bytes[OF wf] nw)
  have sz: "(word_of_nat (p + ?k * ?c + ?c + unat ?n) :: size_t) - padded8 ?S
            = padded8 (sizeof_BootChunkDesc P * (numChunks st + 1))"
    using off nw by (simp add: padded8_def algebra_simps)
  have sz': "word_of_nat ?k * sizeof_BootChunkDesc P
             + (sizeof_BootChunkDesc P + pad8 (sizeof_BootChunkDesc P * (numChunks st + 1)))
            = padded8 (sizeof_BootChunkDesc P * (numChunks st + 1))"
    using nw by (simp add: padded8_def algebra_simps)
  have ps: "?S + pad8 ?S = padded8 ?S" by (simp add: padded8_def)
  show ?thesis
    unfolding generate_chunks_def Let_def ctb len
    by (simp add: off calculate_padding_PAD_SIZE ps n loop w1 pad sz' del: fwrite_stream)
qed

lemma generate_ziChunks_loop_stream:
  assumes wf: "wf_platform P"
  shows "k + i = length (ziChunkTable st) \<Longrightarrow> p = length cs \<Longrightarrow>
     generate_ziChunks_loop P k i (stream cs p) st =
       Inr (stream (cs @ concat (map (bytes_BootZIChunkDesc P) (drop i (ziChunkTable st))))
                   (p + k * unat (sizeof_BootZIChunkDesc P)))"
proof (induction k arbitrary: i cs p)
  case 0
  then show ?case by simp
next
  case (Suc k)
  let ?z = "ziChunkTable st ! i"
  have i: "i < length (ziChunkTable st)" using Suc.prems(1) by simp
  have body: "generate_ziChunks_body P i (stream cs p) st =
      Inr (stream (cs @ bytes_BootZIChunkDesc P ?z) (p + unat (sizeof_BootZIChunkDesc P)))"
    using i wf fwrite_end[OF Suc.prems(2), of "bytes_BootZIChunkDesc P ?z"]
    by (simp add: generate_ziChunks_body_def del: fwrite_stream)
  have len: "k + Suc i = length (ziChunkTable st)" using Suc.prems(1) by simp
  have pos: "p + unat (sizeof_BootZIChunkDesc P) = length (cs @ bytes_BootZIChunkDesc P ?z)"
    using wf Suc.prems(2) by simp
  have dr: "drop i (ziChunkTable st) = ?z # drop (Suc i) (ziChunkTable st)"
    using i by (simp add: Cons_nth_drop_Suc)
  show ?case
    using Suc.IH[OF len pos] by (simp add: body dr add.assoc)
qed

lemma generate_ziChunks_stream:
  assumes wf: "wf_platform P"
    and n: "unat (numZIChunks st) = length (ziChunkTable st)"
    and p: "p = length cs"
    and off: "(word_of_nat p :: size_t) =
                chunkTableOffset (bootImage st) + padded8 (sizeof_BootChunkDesc P * (numChunks st + 1))"
  shows "generate_ziChunks P (stream cs p) st =
     Inr (stream (cs @ ziChunk_table_bytes P (ziChunkTable st))
                 (p + length (ziChunk_table_bytes P (ziChunkTable st))),
          st\<lparr>bootImage := (bootImage st)\<lparr>ziChunkTableOffset := word_of_nat p\<rparr>,
             ziChunkTablePaddedSize := padded8 (sizeof_BootZIChunkDesc P * (numZIChunks st + 1))\<rparr>)"
proof -
  let ?st = "st\<lparr>bootImage := (bootImage st)\<lparr>ziChunkTableOffset := word_of_nat p\<rparr>\<rparr>"
  let ?zis = "ziChunkTable st"
  let ?body = "concat (map (bytes_BootZIChunkDesc P) ?zis)"
  let ?k = "length ?zis"
  let ?c = "unat (sizeof_BootZIChunkDesc P)"
  let ?n = "pad8 (sizeof_BootZIChunkDesc P * (numZIChunks st + 1))"
  have nw: "word_of_nat ?k = numZIChunks st" by (rule numChunks_of_nat[OF n])
  have k: "?k + 0 = length (ziChunkTable ?st)" by simp
  have "generate_ziChunks_loop P ?k 0 (stream cs p) ?st =
       Inr (stream (cs @ concat (map (bytes_BootZIChunkDesc P) (drop 0 (ziChunkTable ?st))))
                   (p + ?k * ?c))"
    by (rule generate_ziChunks_loop_stream[OF wf k p])
  then have loop: "generate_ziChunks_loop P ?k 0 (stream cs p) ?st =
       Inr (stream (cs @ ?body) (p + ?k * ?c))"
    by simp
  have pos1: "p + ?k * ?c = length (cs @ ?body)"
    using wf p by (simp add: length_concat_const)
  have w1: "fwrite (bytes_BootZIChunkDesc P ziChunk_sentinel) (stream (cs @ ?body) (p + ?k * ?c))
            = Some (stream (cs @ ?body @ bytes_BootZIChunkDesc P ziChunk_sentinel) (p + ?k * ?c + ?c))"
    using fwrite_end[OF pos1, of "bytes_BootZIChunkDesc P ziChunk_sentinel"] wf by simp
  have pos2: "p + ?k * ?c + ?c = length (cs @ ?body @ bytes_BootZIChunkDesc P ziChunk_sentinel)"
    using wf pos1 by simp
  have pad: "write_pad (stream (cs @ ?body @ bytes_BootZIChunkDesc P ziChunk_sentinel) (p + ?k * ?c + ?c)) ?n
        = Inr (stream (cs @ ?body @ bytes_BootZIChunkDesc P ziChunk_sentinel @ replicate (unat ?n) 0)
                 (p + ?k * ?c + ?c + unat ?n))"
    using write_pad_end[OF pos2, of ?n] by simp
  have ztb: "cs @ ziChunk_table_bytes P ?zis =
      cs @ ?body @ bytes_BootZIChunkDesc P ziChunk_sentinel @ replicate (unat ?n) 0"
    by (simp add: ziChunk_table_bytes_def nw)
  have len: "p + length (ziChunk_table_bytes P ?zis) = p + ?k * ?c + ?c + unat ?n"
    by (simp add: length_ziChunk_table_bytes[OF wf] nw)
  have sz': "word_of_nat ?k * sizeof_BootZIChunkDesc P
             + (sizeof_BootZIChunkDesc P + ?n)
            = padded8 (sizeof_BootZIChunkDesc P * (numZIChunks st + 1))"
    using nw by (simp add: padded8_def algebra_simps)
  have chk: "chunkTableOffset (bootImage st) + numChunks st * sizeof_BootChunkDesc P
             + sizeof_BootChunkDesc P + pad8 (sizeof_BootChunkDesc P * (numChunks st + 1))
             = word_of_nat p"
    unfolding off by (simp add: padded8_def algebra_simps)
  show ?thesis
    unfolding generate_ziChunks_def Let_def ztb len
    by (simp add: calculate_padding_PAD_SIZE chk n loop w1 pad sz' del: fwrite_stream)
qed

lemma blob_bytes_Some:
  "pBuffer e = Some buf \<Longrightarrow>
   blob_bytes e = take (unat (chunk_size (chunk e))) buf
                  @ replicate (unat (pad8 (chunk_size (chunk e)))) 0"
  by (simp add: blob_bytes_def)

lemma generate_blobs_body_stream:
  assumes i: "i < length (chunkTable st)" and ok: "buffer_ok (chunkTable st ! i)"
    and p: "p = length cs"
  shows "generate_blobs_body P i (stream cs p) st =
           Inr (stream (cs @ blob_bytes (chunkTable st ! i))
                       (p + length (blob_bytes (chunkTable st ! i))),
                st\<lparr>chunkTable := (chunkTable st)[i := release (chunkTable st ! i)]\<rparr>)"
proof -
  let ?e = "chunkTable st ! i"
  from ok obtain buf where b: "pBuffer ?e = Some buf" and l: "unat (chunk_size (chunk ?e)) \<le> length buf"
    by (auto simp: buffer_ok_def split: option.splits)
  let ?d = "take (unat (chunk_size (chunk ?e))) buf"
  let ?n = "pad8 (chunk_size (chunk ?e))"
  let ?l = "unat (chunk_size (chunk ?e))"
  have ld: "length ?d = ?l" using l by simp
  have w1: "fwrite ?d (stream cs p) = Some (stream (cs @ ?d) (p + ?l))"
    using fwrite_end[OF p, of ?d] ld by simp
  have pos: "p + ?l = length (cs @ ?d)" using p ld by simp
  have pad: "write_pad (stream (cs @ ?d) (p + ?l)) ?n
             = Inr (stream (cs @ ?d @ replicate (unat ?n) 0) (p + (?l + unat ?n)))"
    using write_pad_end[OF pos, of ?n] by (simp add: add.assoc)
  have bb: "blob_bytes ?e = ?d @ replicate (unat ?n) 0" by (rule blob_bytes_Some[OF b])
  show ?thesis
    unfolding generate_blobs_body_def Let_def bb
    using i l
    by (simp add: b calculate_padding_PAD_SIZE w1 pad release_def del: fwrite_stream)
qed

lemma generate_blobs_loop_stream:
  "k + i = length (chunkTable st) \<Longrightarrow> \<forall>e \<in> set (drop i (chunkTable st)). buffer_ok e \<Longrightarrow>
   p = length cs \<Longrightarrow>
     generate_blobs_loop P k i (stream cs p) st =
       Inr (stream (cs @ concat (map blob_bytes (drop i (chunkTable st))))
                   (p + length (concat (map blob_bytes (drop i (chunkTable st))))),
            st\<lparr>chunkTable := take i (chunkTable st) @ map release (drop i (chunkTable st))\<rparr>)"
proof (induction k arbitrary: i cs p st)
  case 0
  then show ?case by simp
next
  case (Suc k)
  let ?tbl = "chunkTable st"
  let ?e = "?tbl ! i"
  let ?st' = "st\<lparr>chunkTable := ?tbl[i := release ?e]\<rparr>"
  have i: "i < length ?tbl" using Suc.prems(1) by simp
  have dr: "drop i ?tbl = ?e # drop (Suc i) ?tbl"
    using i by (simp add: Cons_nth_drop_Suc)
  have ok: "buffer_ok ?e" using Suc.prems(2) dr by simp
  have body: "generate_blobs_body P i (stream cs p) st =
      Inr (stream (cs @ blob_bytes ?e) (p + length (blob_bytes ?e)), ?st')"
    by (rule generate_blobs_body_stream[OF i ok Suc.prems(3)])
  have len: "k + Suc i = length (chunkTable ?st')" using Suc.prems(1) by simp
  have oks: "\<forall>e \<in> set (drop (Suc i) (chunkTable ?st')). buffer_ok e"
    using Suc.prems(2) dr by simp
  have pos: "p + length (blob_bytes ?e) = length (cs @ blob_bytes ?e)"
    using Suc.prems(3) by simp
  have tk: "take (Suc i) (?tbl[i := release ?e]) = take i ?tbl @ [release ?e]"
    using i by (simp add: take_Suc_conv_app_nth)
  show ?case
    using Suc.IH[OF len oks pos] by (simp add: body dr tk add.assoc)
qed

lemma generate_blobs_stream:
  assumes ne: "chunkTable st \<noteq> []"
    and n: "unat (numChunks st) = length (chunkTable st)"
    and ok: "\<forall>e \<in> set (chunkTable st). buffer_ok e"
    and p: "p = length cs"
    and a0: "loadAddr (chunk (hd (chunkTable st))) =
               ziChunkTableOffset (bootImage st)
               + padded8 (sizeof_BootZIChunkDesc P * (numZIChunks st + 1))"
  shows "generate_blobs P (stream cs p) st =
           Inr (stream (cs @ concat (map blob_bytes (chunkTable st)))
                       (p + length (concat (map blob_bytes (chunkTable st)))),
                st\<lparr>chunkTable := map release (chunkTable st)\<rparr>)"
proof -
  from ne obtain e0 es where tbl: "chunkTable st = e0 # es" by (cases "chunkTable st") auto
  have k: "length (chunkTable st) + 0 = length (chunkTable st)" by simp
  have oks: "\<forall>e \<in> set (drop 0 (chunkTable st)). buffer_ok e" using ok by simp
  have loop: "generate_blobs_loop P (length (chunkTable st)) 0 (stream cs p) st =
       Inr (stream (cs @ concat (map blob_bytes (drop 0 (chunkTable st))))
                   (p + length (concat (map blob_bytes (drop 0 (chunkTable st))))),
            st\<lparr>chunkTable := take 0 (chunkTable st) @ map release (drop 0 (chunkTable st))\<rparr>)"
    by (rule generate_blobs_loop_stream[OF k oks p])
  have chk: "ziChunkTableOffset (bootImage st) + numZIChunks st * sizeof_BootZIChunkDesc P
             + sizeof_BootZIChunkDesc P + pad8 (sizeof_BootZIChunkDesc P * (numZIChunks st + 1))
             = loadAddr (chunk e0)"
    using a0 tbl by (simp add: padded8_def algebra_simps)
  show ?thesis
    using loop
    by (simp add: generate_blobs_def tbl calculate_padding_PAD_SIZE chk n)
qed

lemma blob_bytes_assign_loadAddr [simp]:
  "map blob_bytes (assign_loadAddr a es) = map blob_bytes es"
  by (induction es arbitrary: a) (simp_all add: blob_bytes_def split: option.splits)

lemma buffer_ok_assign_loadAddr:
  "\<forall>e \<in> set es. buffer_ok e \<Longrightarrow> \<forall>e \<in> set (assign_loadAddr a es). buffer_ok e"
  by (induction es arbitrary: a) (simp_all add: buffer_ok_def split: option.splits)

lemma hd_assign_loadAddr:
  "es \<noteq> [] \<Longrightarrow> loadAddr (chunk (hd (assign_loadAddr a es))) = a"
  by (cases es) simp_all

lemma length_blob_bytes:
  "buffer_ok e \<Longrightarrow>
   length (blob_bytes e) = unat (chunk_size (chunk e)) + unat (pad8 (chunk_size (chunk e)))"
  by (auto simp: buffer_ok_def blob_bytes_def split: option.splits)

lemma word_length_blobs:
  "\<forall>e \<in> set es. buffer_ok e \<Longrightarrow>
   (word_of_nat (length (concat (map blob_bytes es))) :: size_t)
     = sum_list (map (\<lambda>e. padded8 (chunk_size (chunk e))) es)"
  by (induction es) (simp_all add: length_blob_bytes padded8_def)

lemma header_bytes_store:
  assumes wf: "wf_platform P"
  shows "store (header_bytes P h0 @ rest) 0 (header_bytes P h) = header_bytes P h @ rest"
  by (simp add: store_start length_header_bytes[OF wf])

lemma generate_header_stream':
  assumes wf: "wf_platform P"
  shows "generate_header P (stream cs p) st =
           Inr (stream (store cs 0 (header_bytes P (bootImage st))) (length (header_bytes P (bootImage st))),
                st\<lparr>bootImagePaddedSize := padded8 (sizeof_BootImage P)\<rparr>)"
  using generate_header_stream[OF wf, of cs p st] wf
  by (simp add: header_bytes_def padded8_def)

lemma generate_payload_stream:
  assumes wf: "wf_platform P"
    and ne: "chunkTable st \<noteq> []"
    and nc: "unat (numChunks st) = length (chunkTable st)"
    and nz: "unat (numZIChunks st) = length (ziChunkTable st)"
    and ok: "\<forall>e \<in> set (chunkTable st). buffer_ok e"
    and sign: "sign_payload P
                 (stream (header_bytes P (checksummed_header P st) @ image_body P st)
                         (length (header_bytes P (checksummed_header P st))))
                 key (checksummed_state P st) = Inr (stream F q, st9)"
  shows "generate_payload P None fn key st = Inr (F, st9)"
proof -
  define S where "S = sizeof_BootImage P"
  define szC where "szC = sizeof_BootChunkDesc P"
  define szZ where "szZ = sizeof_BootZIChunkDesc P"
  define H0 where "H0 = header_bytes P (bootImage st)"
  define AC where "AC = addressed_chunks P st"
  define CT where "CT = chunk_table_bytes P AC"
  define ZT where "ZT = ziChunk_table_bytes P (ziChunkTable st)"
  define BL where "BL = concat (map blob_bytes (chunkTable st))"
  define s1 where "s1 = st\<lparr>bootImagePaddedSize := padded8 S\<rparr>"
  define s2 where "s2 = s1\<lparr>bootImage := (bootImage s1)\<lparr>chunkTableOffset := padded8 S\<rparr>,
             chunkTable := AC,
             chunkTablePaddedSize := padded8 (szC * (numChunks s1 + 1))\<rparr>"
  define p2 where "p2 = length H0 + length CT"
  define s3 where "s3 = s2\<lparr>bootImage := (bootImage s2)\<lparr>ziChunkTableOffset := word_of_nat p2\<rparr>,
             ziChunkTablePaddedSize := padded8 (szZ * (numZIChunks s2 + 1))\<rparr>"
  define p3 where "p3 = p2 + length ZT"
  define s4 where "s4 = s3\<lparr>bootImage := (bootImage s3)\<lparr>headerLength := word_of_nat p3\<rparr>\<rparr>"
  define p4 where "p4 = p3 + length BL"
  define s5 where "s5 = s4\<lparr>chunkTable := map release (chunkTable s4)\<rparr>"
  define s6 where "s6 = s5\<lparr>bootImage := (bootImage s5)\<lparr>bootImageLength := word_of_nat p4\<rparr>\<rparr>"
  define s7 where "s7 = s6\<lparr>bootImage := (bootImage s6)
                          \<lparr>headerCrc := CRC32_calculate P (bytes_BootImage P (bootImage s6))\<rparr>\<rparr>"
  define s8 where "s8 = s7\<lparr>bootImagePaddedSize := padded8 S\<rparr>"

  have lenAC: "length AC = length (chunkTable st)" by (simp add: AC_def addressed_chunks_def)
  have nw: "word_of_nat (length (chunkTable st)) = numChunks st" by (rule numChunks_of_nat[OF nc])
  have zw: "word_of_nat (length (ziChunkTable st)) = numZIChunks st" by (rule numChunks_of_nat[OF nz])
  have wH0: "(word_of_nat (length H0) :: size_t) = padded8 S"
    unfolding H0_def S_def by (rule word_length_header_bytes[OF wf])
  have wCT: "(word_of_nat (length CT) :: size_t) = padded8 (szC * (numChunks st + 1))"
    unfolding CT_def szC_def using word_length_chunk_table_bytes[OF wf, of AC] by (simp add: lenAC nw)
  have wZT: "(word_of_nat (length ZT) :: size_t) = padded8 (szZ * (numZIChunks st + 1))"
    unfolding ZT_def szZ_def using word_length_ziChunk_table_bytes[OF wf, of "ziChunkTable st"]
    by (simp add: zw)
  have wBL: "(word_of_nat (length BL) :: size_t)
             = sum_list (map (\<lambda>e. padded8 (chunk_size (chunk e))) (chunkTable st))"
    unfolding BL_def by (rule word_length_blobs[OF ok])
  have wp2: "(word_of_nat p2 :: size_t) = padded8 S + padded8 (szC * (numChunks st + 1))"
    by (simp add: p2_def wH0 wCT)
  have wp3: "(word_of_nat p3 :: size_t)
             = padded8 S + padded8 (szC * (numChunks st + 1)) + padded8 (szZ * (numZIChunks st + 1))"
    by (simp add: p3_def wp2 wZT)
  have wp4: "(word_of_nat p4 :: size_t)
             = padded8 S + padded8 (szC * (numChunks st + 1)) + padded8 (szZ * (numZIChunks st + 1))
               + sum_list (map (\<lambda>e. padded8 (chunk_size (chunk e))) (chunkTable st))"
    by (simp add: p4_def wp3 wBL)

  have step1: "generate_header P (stream [] 0) st = Inr (stream H0 (length H0), s1)"
    using generate_header_stream'[OF wf, of "[]" 0 st]
    by (simp add: H0_def s1_def S_def store_start)

  have step2: "generate_chunks P (stream H0 (length H0)) s1 = Inr (stream (H0 @ CT) p2, s2)"
  proof -
    have a: "unat (numChunks s1) = length (chunkTable s1)" using nc by (simp add: s1_def)
    have b: "length H0 = length (header_bytes P (bootImage st))" by (simp add: H0_def)
    have c: "length (chunk_table_bytes P (chunkTable s1)) = length CT"
      by (simp add: length_chunk_table_bytes[OF wf] CT_def lenAC s1_def)
    show ?thesis
      using generate_chunks_stream[OF wf a refl b] c
      by (simp add: s2_def CT_def AC_def addressed_chunks_def p2_def S_def szC_def s1_def)
  qed

  have step3: "generate_ziChunks P (stream (H0 @ CT) p2) s2 = Inr (stream (H0 @ CT @ ZT) p3, s3)"
  proof -
    have a: "unat (numZIChunks s2) = length (ziChunkTable s2)" using nz by (simp add: s2_def s1_def)
    have b: "p2 = length (H0 @ CT)" by (simp add: p2_def)
    have c: "(word_of_nat p2 :: size_t) =
                chunkTableOffset (bootImage s2) + padded8 (sizeof_BootChunkDesc P * (numChunks s2 + 1))"
      by (simp add: wp2 s2_def s1_def szC_def)
    show ?thesis
      using generate_ziChunks_stream[OF wf a b c]
      by (simp add: s3_def ZT_def p3_def szZ_def s2_def s1_def)
  qed

  have s4': "s3\<lparr>bootImage := (bootImage s3)\<lparr>headerLength := ftello (stream (H0 @ CT @ ZT) p3)\<rparr>\<rparr> = s4"
    by (simp add: s4_def)
  have chk4: "headerLength (bootImage s4)
              = bootImagePaddedSize s4 + chunkTablePaddedSize s4 + ziChunkTablePaddedSize s4"
    by (simp add: s4_def s3_def s2_def s1_def wp3)

  have step5: "generate_blobs P (stream (H0 @ CT @ ZT) p3) s4 = Inr (stream (H0 @ CT @ ZT @ BL) p4, s5)"
  proof -
    have tbl: "chunkTable s4 = AC" by (simp add: s4_def s3_def s2_def)
    have a: "chunkTable s4 \<noteq> []" using ne lenAC tbl by auto
    have b: "unat (numChunks s4) = length (chunkTable s4)"
      using nc lenAC by (simp add: s4_def s3_def s2_def s1_def)
    have c: "\<forall>e \<in> set (chunkTable s4). buffer_ok e"
      unfolding tbl AC_def addressed_chunks_def by (rule buffer_ok_assign_loadAddr[OF ok])
    have d: "p3 = length (H0 @ CT @ ZT)" by (simp add: p3_def p2_def)
    have e: "loadAddr (chunk (hd (chunkTable s4))) =
               ziChunkTableOffset (bootImage s4)
               + padded8 (sizeof_BootZIChunkDesc P * (numZIChunks s4 + 1))"
      unfolding tbl AC_def addressed_chunks_def
      by (simp add: hd_assign_loadAddr[OF ne] first_blob_offset_def s4_def s3_def s2_def s1_def
          wp2 szC_def S_def)
    have f: "concat (map blob_bytes (chunkTable s4)) = BL"
      by (simp add: tbl AC_def addressed_chunks_def BL_def)
    show ?thesis
      using generate_blobs_stream[OF a b c d e]
      by (simp add: f p4_def s5_def)
  qed

  have s6': "s5\<lparr>bootImage := (bootImage s5)\<lparr>bootImageLength := ftello (stream (H0 @ CT @ ZT @ BL) p4)\<rparr>\<rparr> = s6"
    by (simp add: s6_def)

  have hdr: "bootImage s7 = checksummed_header P st"
    by (simp add: s7_def s6_def s5_def s4_def s3_def s2_def s1_def checksummed_header_def
        laid_out_header_def wp2 wp3 wp4 S_def szC_def szZ_def)

  have step8: "generate_header P (stream (H0 @ CT @ ZT @ BL) p4) s7
               = Inr (stream (header_bytes P (checksummed_header P st) @ image_body P st)
                        (length (header_bytes P (checksummed_header P st))),
                      checksummed_state P st)"
  proof -
    have a: "store (H0 @ CT @ ZT @ BL) 0 (header_bytes P (bootImage s7))
             = header_bytes P (checksummed_header P st) @ image_body P st"
      unfolding H0_def hdr
      by (simp add: header_bytes_store[OF wf] image_body_def CT_def AC_def ZT_def BL_def)
    have b: "s7\<lparr>bootImagePaddedSize := padded8 (sizeof_BootImage P)\<rparr> = checksummed_state P st"
      unfolding checksummed_state_def hdr[symmetric]
      by (simp add: s7_def s6_def s5_def s4_def s3_def s2_def s1_def AC_def S_def szC_def szZ_def)
    show ?thesis
      using generate_header_stream'[OF wf, of "H0 @ CT @ ZT @ BL" p4 s7]
      by (simp only: a[unfolded hdr] b hdr)
  qed

  show ?thesis
    unfolding generate_payload_def Let_def
    by (simp only: fopen_None option.case step1 bindE_Inr prod.case step2 step3 s4' chk4
        simp_thms if_False step5 s6' s7_def[symmetric] step8 sign fclose_stream)
qed

lemma word_length_image:
  assumes wf: "wf_platform P"
    and nc: "unat (numChunks st) = length (chunkTable st)"
    and nz: "unat (numZIChunks st) = length (ziChunkTable st)"
    and ok: "\<forall>e \<in> set (chunkTable st). buffer_ok e"
  shows "(word_of_nat (length (header_bytes P h @ image_body P st)) :: size_t)
         = bootImageLength (checksummed_header P st)"
proof -
  have nw: "word_of_nat (length (chunkTable st)) = numChunks st" by (rule numChunks_of_nat[OF nc])
  have zw: "word_of_nat (length (ziChunkTable st)) = numZIChunks st" by (rule numChunks_of_nat[OF nz])
  have a: "(word_of_nat (length (header_bytes P h)) :: size_t) = padded8 (sizeof_BootImage P)"
    by (rule word_length_header_bytes[OF wf])
  have b: "(word_of_nat (length (chunk_table_bytes P (addressed_chunks P st))) :: size_t)
           = padded8 (sizeof_BootChunkDesc P * (numChunks st + 1))"
    using word_length_chunk_table_bytes[OF wf, of "addressed_chunks P st"]
    by (simp add: addressed_chunks_def nw)
  have c: "(word_of_nat (length (ziChunk_table_bytes P (ziChunkTable st))) :: size_t)
           = padded8 (sizeof_BootZIChunkDesc P * (numZIChunks st + 1))"
    using word_length_ziChunk_table_bytes[OF wf, of "ziChunkTable st"] by (simp add: zw)
  have d: "(word_of_nat (length (concat (map blob_bytes (chunkTable st)))) :: size_t)
           = sum_list (map (\<lambda>e. padded8 (chunk_size (chunk e))) (chunkTable st))"
    by (rule word_length_blobs[OF ok])
  have "length (header_bytes P h @ image_body P st)
        = length (header_bytes P h) + length (chunk_table_bytes P (addressed_chunks P st))
          + length (ziChunk_table_bytes P (ziChunkTable st))
          + length (concat (map blob_bytes (chunkTable st)))"
    by (simp add: image_body_def)
  then have "(word_of_nat (length (header_bytes P h @ image_body P st)) :: size_t)
        = word_of_nat (length (header_bytes P h))
          + word_of_nat (length (chunk_table_bytes P (addressed_chunks P st)))
          + word_of_nat (length (ziChunk_table_bytes P (ziChunkTable st)))
          + word_of_nat (length (concat (map blob_bytes (chunkTable st))))"
    by (simp only: of_nat_add)
  then show ?thesis
    unfolding a b c d by (simp add: checksummed_header_def laid_out_header_def)
qed

lemma unat_of_nat_le: "unat (word_of_nat n :: size_t) \<le> n"
  by (simp add: unat_of_nat)

lemma sign_payload_None: "sign_payload P f None st = Inr (f, st)"
  by (simp add: sign_payload_def)

lemma sign_payload_stream:
  assumes wf: "wf_platform P"
    and nc: "unat (numChunks st) = length (chunkTable st)"
    and nz: "unat (numZIChunks st) = length (ziChunkTable st)"
    and ok: "\<forall>e \<in> set (chunkTable st). buffer_ok e"
    and sg: "signing_ok P (Some k) st"
  shows "\<exists>q st9. sign_payload P
                 (stream (header_bytes P (checksummed_header P st) @ image_body P st)
                         (length (header_bytes P (checksummed_header P st))))
                 (Some k) (checksummed_state P st)
          = Inr (stream (header_bytes P (final_header P (Some k) st) @ image_body P st) q, st9)
          \<and> bootImage st9 = final_header P (Some k) st
          \<and> chunkTable st9 = chunkTable (checksummed_state P st)
          \<and> ziChunkTable st9 = ziChunkTable st
          \<and> numChunks st9 = numChunks st
          \<and> numZIChunks st9 = numZIChunks st
          \<and> bootImagePaddedSize st9 = bootImagePaddedSize (checksummed_state P st)
          \<and> chunkTablePaddedSize st9 = chunkTablePaddedSize (checksummed_state P st)
          \<and> ziChunkTablePaddedSize st9 = ziChunkTablePaddedSize (checksummed_state P st)"
proof -
  let ?U = "header_bytes P (checksummed_header P st) @ image_body P st"
  let ?cs = "checksummed_state P st"
  let ?n = "unat (bootImageLength (checksummed_header P st))"
  from sg obtain r s where es: "ECDSA_sign P k (image_digest P st) = Some (r, s)"
    and lr: "length r \<le> 48" and ls: "length s \<le> 48" and al: "allocs_ok st \<noteq> Some 0"
    by (auto simp: signing_ok_def split: option.splits)
  have "\<exists>e. env_call (allocs_ok st) = Some e"
  proof (cases "allocs_ok st")
    case None
    then show ?thesis by simp
  next
    case (Some a)
    with al show ?thesis by (cases a) (simp_all add: env_call_def)
  qed
  then obtain e where m: "env_call (allocs_ok st) = Some e" ..
  define cs where "cs = checksummed_state P st"
  define cs' where "cs' = cs\<lparr>allocs_ok := e\<rparr>"
  define s1 where "s1 = cs'\<lparr>bootImage := (bootImage cs')
                           \<lparr>signature := (signature (bootImage cs'))\<lparr>digest := image_digest P st\<rparr>\<rparr>\<rparr>"
  define s2 where "s2 = s1\<lparr>bootImage := (bootImage s1)
                           \<lparr>signature := (signature (bootImage s1))
                              \<lparr>ecdsaSig := replicate (48 - length r) 0 @ r
                                           @ replicate (48 - length s) 0 @ s\<rparr>\<rparr>\<rparr>"
  have ml: "malloc cs = Some cs'"
    using m by (simp add: malloc_def cs_def cs'_def checksummed_state_def)
  have bl: "bootImageLength (bootImage cs') = bootImageLength (checksummed_header P st)"
    by (simp add: cs'_def cs_def checksummed_state_def)
  have "?n \<le> length ?U"
    using unat_of_nat_le[of "length ?U"] word_length_image[OF wf nc nz ok, of "checksummed_header P st"]
    by simp
  then have lt: "length (take ?n ?U) = ?n" by simp
  have dg: "SHA384 P (take ?n ?U) = image_digest P st" by (simp add: image_digest_def)
  have c48: "(48 < length r \<or> 48 < length s) = False" using lr ls by simp
  have h2: "bootImage s2 = final_header P (Some k) st"
    by (simp add: final_header_def es s2_def s1_def cs'_def cs_def checksummed_state_def)
  have gh: "generate_header P (stream ?U (0 + ?n)) s2
            = Inr (stream (store ?U 0 (header_bytes P (bootImage s2)))
                     (length (header_bytes P (bootImage s2))),
                   s2\<lparr>bootImagePaddedSize := padded8 (sizeof_BootImage P)\<rparr>)"
    by (rule generate_header_stream'[OF wf])
  have st: "store ?U 0 (header_bytes P (final_header P (Some k) st))
            = header_bytes P (final_header P (Some k) st) @ image_body P st"
    by (rule header_bytes_store[OF wf])
  have run: "sign_payload P (stream ?U (length (header_bytes P (checksummed_header P st)))) (Some k) cs
        = Inr (stream (header_bytes P (final_header P (Some k) st) @ image_body P st)
                 (length (header_bytes P (final_header P (Some k) st))),
               s2\<lparr>bootImagePaddedSize := padded8 (sizeof_BootImage P)\<rparr>)"
    unfolding sign_payload_def Let_def
    by (simp only: option.case ml fseek_stream fread_stream drop_0 prod.case bl lt simp_thms
        if_False dg es c48 s1_def[symmetric] s2_def[symmetric] gh h2 st)
  show ?thesis
    unfolding cs_def[symmetric]
    by (intro exI conjI, rule run)
       (simp_all add: final_header_def es s2_def s1_def cs'_def cs_def checksummed_state_def)
qed

lemma generate_payload_completes:
  assumes wf: "wf_platform P" and rd: "ready st" and sg: "signing_ok P key st"
  shows "\<exists>st'. generate_payload P None fn key st =
                 Inr (header_bytes P (final_header P key st) @ image_body P st, st')
          \<and> bootImage st' = final_header P key st
          \<and> chunkTable st' = map release (addressed_chunks P st)
          \<and> ziChunkTable st' = ziChunkTable st
          \<and> numChunks st' = numChunks st
          \<and> numZIChunks st' = numZIChunks st
          \<and> bootImagePaddedSize st' = padded8 (sizeof_BootImage P)
          \<and> chunkTablePaddedSize st' = padded8 (sizeof_BootChunkDesc P * (numChunks st + 1))
          \<and> ziChunkTablePaddedSize st' = padded8 (sizeof_BootZIChunkDesc P * (numZIChunks st + 1))"
proof -
  from rd have ne: "chunkTable st \<noteq> []"
    and nc: "unat (numChunks st) = length (chunkTable st)"
    and nz: "unat (numZIChunks st) = length (ziChunkTable st)"
    and ok: "\<forall>e \<in> set (chunkTable st). buffer_ok e"
    by (simp_all add: ready_def)
  show ?thesis
  proof (cases key)
    case None
    have s: "sign_payload P
                 (stream (header_bytes P (checksummed_header P st) @ image_body P st)
                         (length (header_bytes P (checksummed_header P st))))
                 key (checksummed_state P st)
             = Inr (stream (header_bytes P (checksummed_header P st) @ image_body P st)
                         (length (header_bytes P (checksummed_header P st))),
                    checksummed_state P st)"
      unfolding None by (rule sign_payload_None)
    have fh: "final_header P key st = checksummed_header P st"
      by (simp add: final_header_def None)
    show ?thesis
      unfolding fh
      by (intro exI conjI, rule generate_payload_stream[OF wf ne nc nz ok s])
         (simp_all add: checksummed_state_def)
  next
    case (Some k)
    from sign_payload_stream[OF wf nc nz ok sg[unfolded Some]]
    obtain q st9 where s: "sign_payload P
                 (stream (header_bytes P (checksummed_header P st) @ image_body P st)
                         (length (header_bytes P (checksummed_header P st))))
                 (Some k) (checksummed_state P st)
          = Inr (stream (header_bytes P (final_header P (Some k) st) @ image_body P st) q, st9)"
      and r: "bootImage st9 = final_header P (Some k) st"
          "chunkTable st9 = chunkTable (checksummed_state P st)"
          "ziChunkTable st9 = ziChunkTable st"
          "numChunks st9 = numChunks st"
          "numZIChunks st9 = numZIChunks st"
          "bootImagePaddedSize st9 = bootImagePaddedSize (checksummed_state P st)"
          "chunkTablePaddedSize st9 = chunkTablePaddedSize (checksummed_state P st)"
          "ziChunkTablePaddedSize st9 = ziChunkTablePaddedSize (checksummed_state P st)"
      by blast
    show ?thesis
      unfolding Some
      by (intro exI conjI, rule generate_payload_stream[OF wf ne nc nz ok s])
         (simp_all add: r checksummed_state_def)
  qed
qed

lemma builder_calls_result:
  "builder_calls calls st = Inr st' \<Longrightarrow>
     chunkTable st' = chunkTable st @ added_chunks calls
     \<and> ziChunkTable st' = ziChunkTable st @ added_ziChunks calls
     \<and> numChunks st' = numChunks st + word_of_nat (length (added_chunks calls))
     \<and> numZIChunks st' = numZIChunks st + word_of_nat (length (added_ziChunks calls))
     \<and> bootImage st' = bootImage st"
proof (induction calls arbitrary: st)
  case Nil
  then show ?case by simp
next
  case (Cons x xs)
  show ?case
  proof (cases x)
    case (Add_chunk c buf)
    from Cons.prems obtain n s1 where a: "generate_add_chunk c buf st = Inr (n, s1)"
      and b: "builder_calls xs s1 = Inr st'"
      by (auto simp: Add_chunk split: sum.splits)
    from a have "chunkTable s1 = chunkTable st @ added_chunks [x]
        \<and> ziChunkTable s1 = ziChunkTable st
        \<and> numChunks s1 = numChunks st + word_of_nat (length (added_chunks [x]))
        \<and> numZIChunks s1 = numZIChunks st \<and> bootImage s1 = bootImage st"
      by (auto simp: generate_add_chunk_def realloc_def Add_chunk Let_def
          split: if_splits option.splits)
    with Cons.IH[OF b] show ?thesis by (auto simp: Add_chunk)
  next
    case (Add_ziChunk z)
    from Cons.prems obtain n s1 where a: "generate_add_ziChunk z st = Inr (n, s1)"
      and b: "builder_calls xs s1 = Inr st'"
      by (auto simp: Add_ziChunk split: sum.splits)
    from a have "chunkTable s1 = chunkTable st
        \<and> ziChunkTable s1 = ziChunkTable st @ [z]
        \<and> numChunks s1 = numChunks st
        \<and> numZIChunks s1 = numZIChunks st + 1 \<and> bootImage s1 = bootImage st"
      by (auto simp: generate_add_ziChunk_def realloc_def Let_def split: option.splits)
    with Cons.IH[OF b] show ?thesis by (auto simp: Add_ziChunk)
  qed
qed

lemma builder_calls_buffers:
  "builder_calls calls st = Inr st' \<Longrightarrow> list_all buffer_holds calls \<Longrightarrow>
     \<forall>e \<in> set (added_chunks calls). buffer_ok e"
proof (induction calls arbitrary: st)
  case Nil
  then show ?case by simp
next
  case (Cons x xs)
  show ?case
  proof (cases x)
    case (Add_chunk c buf)
    from Cons.prems(1) obtain n s1 where a: "generate_add_chunk c buf st = Inr (n, s1)"
      and b: "builder_calls xs s1 = Inr st'"
      by (auto simp: Add_chunk split: sum.splits)
    have t: "\<forall>e \<in> set (added_chunks xs). buffer_ok e"
      using Cons.IH[OF b] Cons.prems(2) by simp
    have "chunk_size c \<noteq> 0 \<Longrightarrow> buffer_ok \<lparr>chunk = c, pBuffer = buf\<rparr>"
      using a Cons.prems(2)
      by (auto simp: generate_add_chunk_def Add_chunk buffer_ok_def split: option.splits)
    with t show ?thesis by (simp add: Add_chunk)
  next
    case (Add_ziChunk z)
    from Cons.prems(1) obtain n s1 where b: "builder_calls xs s1 = Inr st'"
      by (auto simp: Add_ziChunk split: sum.splits)
    show ?thesis using Cons.IH[OF b] Cons.prems(2) by (simp add: Add_ziChunk)
  qed
qed

lemma length_added: "length (added_chunks calls) \<le> length calls"
  "length (added_ziChunks calls) \<le> length calls"
proof -
  show "length (added_chunks calls) \<le> length calls"
    by (induction calls rule: added_chunks.induct) auto
  show "length (added_ziChunks calls) \<le> length calls"
    by (induction calls rule: added_ziChunks.induct) simp_all
qed

lemma unat_of_nat_small: "n < 2 ^ 64 \<Longrightarrow> unat (word_of_nat n :: size_t) = n"
  by (simp add: unat_of_nat)

lemma builder_calls_startup:
  assumes b: "builder_calls calls (generate_init P (startup other heap)) = Inr st"
  shows "chunkTable st = added_chunks calls"
    and "ziChunkTable st = added_ziChunks calls"
    and "numChunks st = word_of_nat (length (added_chunks calls))"
    and "numZIChunks st = word_of_nat (length (added_ziChunks calls))"
    and "bootImage st = bootImage (generate_init P (startup other heap))"
  using builder_calls_result[OF b] by (simp_all add: generate_init_def startup_def)

lemma builder_calls_ready:
  assumes b: "builder_calls calls (generate_init P (startup other heap)) = Inr st"
    and h: "list_all buffer_holds calls"
    and l: "length calls < 2 ^ 64"
    and ne: "added_chunks calls \<noteq> []"
  shows "ready st"
proof -
  have a: "length (added_chunks calls) < 2 ^ 64" "length (added_ziChunks calls) < 2 ^ 64"
    using l length_added[of calls] by simp_all
  show ?thesis
    unfolding ready_def builder_calls_startup[OF b]
    using ne builder_calls_buffers[OF b h] a by (simp add: unat_of_nat_small)
qed

section \<open>The padding function\<close>

text \<open>
  C8, as the code has it. \<^verbatim>\<open>calculate_padding\<close> works in 64-bit arithmetic, where
  \<open>size + (pad - 1)\<close> can wrap. For every size and every non-zero boundary such that
  \<open>size + (boundary - 1)\<close> does not wrap, or such that the boundary divides \<open>2 ^ 64\<close>
  (every power of two, the program's 8 among them), the function returns a result below
  the boundary that brings the size up to a multiple of the boundary, and no smaller
  amount does.
\<close>

theorem calculate_padding_smallest:
  assumes "pad \<noteq> 0"
    and "unat sz + (unat pad - 1) < 2 ^ 64 \<or> unat pad dvd 2 ^ 64"
  shows "\<exists>r. calculate_padding sz pad = Inr r
           \<and> unat r < unat pad
           \<and> (unat sz + unat r) mod unat pad = 0
           \<and> (\<forall>k. (unat sz + k) mod unat pad = 0 \<longrightarrow> unat r \<le> k)"
proof -
  let ?n = "padding_needed (unat sz) (unat pad)"
  have p0: "0 < unat pad" using assms(1) by (simp add: unat_gt_0)
  have lt: "?n < unat pad" by (rule padding_needed_props(1)[OF p0])
  have "unat pad < 2 ^ 64" using unsigned_less[of pad, where ?'a = nat] by simp
  with lt have u: "unat (word_of_nat ?n :: size_t) = ?n" by (simp add: unat_of_nat)
  have "calculate_padding sz pad = Inr (word_of_nat ?n)"
    by (rule calculate_padding_unat[OF assms])
  moreover have "(unat sz + ?n) mod unat pad = 0" by (rule padding_needed_props(2)[OF p0])
  moreover have "\<forall>k. (unat sz + k) mod unat pad = 0 \<longrightarrow> ?n \<le> k"
    by (intro allI impI padding_needed_props(3)[OF p0])
  ultimately show ?thesis using lt u by simp
qed

theorem calculate_padding_smallest_witness:
  "(8::size_t) \<noteq> 0 \<and> unat (8::size_t) dvd 2 ^ 64
   \<and> (\<exists>r. calculate_padding 10 8 = Inr r
         \<and> unat r < unat (8::size_t)
         \<and> (unat (10::size_t) + unat r) mod unat (8::size_t) = 0
         \<and> (\<forall>k. (unat (10::size_t) + k) mod unat (8::size_t) = 0 \<longrightarrow> unat r \<le> k))"
proof -
  have a: "(8::size_t) \<noteq> 0" by simp
  have "(8::nat) dvd 2 ^ 64" by (simp add: dvd_def)
  then have b: "unat (8::size_t) dvd 2 ^ 64" by simp
  then have c: "unat (10::size_t) + (unat (8::size_t) - 1) < 2 ^ 64 \<or> unat (8::size_t) dvd 2 ^ 64"
    by (rule disjI2)
  show ?thesis using a b calculate_padding_smallest[OF a c] by blast
qed

text \<open>
  C8 as the specification states it fails where the sum wraps: the largest
  \<^verbatim>\<open>size_t\<close> value is a multiple of 3, so the smallest amount is 0, and the function
  returns 1, which does not bring it to a multiple of 3.
\<close>

theorem calculate_padding_wraps:
  "calculate_padding 0xFFFFFFFFFFFFFFFF 3 = Inr 1
   \<and> (unat (0xFFFFFFFFFFFFFFFF :: size_t) + 0) mod unat (3 :: size_t) = 0
   \<and> (unat (0xFFFFFFFFFFFFFFFF :: size_t) + unat (1 :: size_t)) mod unat (3 :: size_t) \<noteq> 0"
  by (simp add: calculate_padding_def)

section \<open>Chunks of size zero\<close>

lemma builder_calls_append:
  "builder_calls (xs @ ys) st =
     (case builder_calls xs st of Inl e \<Rightarrow> Inl e | Inr st' \<Rightarrow> builder_calls ys st')"
proof (induction xs arbitrary: st)
  case Nil
  show ?case by simp
next
  case (Cons x xs)
  show ?case
    by (cases x) (simp_all add: Cons.IH split: sum.splits prod.splits)
qed

text \<open>
  C5. Adding a chunk whose size is 0 returns the count as it was and leaves the whole
  builder state as it was; so a sequence of calls with such a call in it builds the very
  state that the sequence without it builds, and whatever is serialized from it.
\<close>

theorem generate_add_chunk_zero_size:
  assumes "chunk_size c = 0"
  shows "generate_add_chunk c buf st = Inr (numChunks st, st)
         \<and> builder_calls (xs @ Add_chunk c buf # ys) st0 = builder_calls (xs @ ys) st0"
proof -
  have a: "generate_add_chunk c buf st' = Inr (numChunks st', st')" for st'
    using assms by (simp add: generate_add_chunk_def)
  have "builder_calls (Add_chunk c buf # ys) st' = builder_calls ys st'" for st'
    by (simp add: a)
  then have "builder_calls (xs @ Add_chunk c buf # ys) st0 = builder_calls (xs @ ys) st0"
    by (simp add: builder_calls_append split: sum.splits)
  with a show ?thesis by simp
qed

theorem generate_add_chunk_zero_size_witness:
  "chunk_size \<lparr>owner = 1, loadAddr = 0, execAddr = 0x80000000, chunk_size = 0, crc32 = 0\<rparr> = 0
   \<and> generate_add_chunk \<lparr>owner = 1, loadAddr = 0, execAddr = 0x80000000, chunk_size = 0, crc32 = 0\<rparr>
         None (startup [] None) = Inr (0, startup [] None)
   \<and> builder_calls
         ([Add_ziChunk \<lparr>zi_owner = 1, zi_execAddr = 0x1000, zi_size = 16\<rparr>]
          @ Add_chunk \<lparr>owner = 1, loadAddr = 0, execAddr = 0x80000000, chunk_size = 0, crc32 = 0\<rparr> None
            # [Add_chunk \<lparr>owner = 1, loadAddr = 0, execAddr = 0x80000000, chunk_size = 2, crc32 = 0\<rparr>
                 (Some [1, 2])])
         (startup [] None)
       = builder_calls
           ([Add_ziChunk \<lparr>zi_owner = 1, zi_execAddr = 0x1000, zi_size = 16\<rparr>]
            @ [Add_chunk \<lparr>owner = 1, loadAddr = 0, execAddr = 0x80000000, chunk_size = 2, crc32 = 0\<rparr>
                 (Some [1, 2])])
           (startup [] None)"
proof -
  have z: "chunk_size \<lparr>owner = 1, loadAddr = 0, execAddr = 0x80000000, chunk_size = 0, crc32 = 0\<rparr> = 0"
    by simp
  have n: "numChunks (startup [] None) = 0" by (simp add: startup_def)
  show ?thesis
    using z n generate_add_chunk_zero_size [OF z, of None "startup [] None"
        "[Add_ziChunk \<lparr>zi_owner = 1, zi_execAddr = 0x1000, zi_size = 16\<rparr>]"
        "[Add_chunk \<lparr>owner = 1, loadAddr = 0, execAddr = 0x80000000, chunk_size = 2, crc32 = 0\<rparr> (Some [1, 2])]"
        "startup [] None"]
    by simp
qed

section \<open>Initialisation\<close>

text \<open>
  C10. \<^verbatim>\<open>generate_init\<close> sets the magic and the version of the header; every other
  member of the header and every other variable of the unit keeps its value.
\<close>

theorem generate_init_frame:
  "magic (bootImage (generate_init P st)) = mHSS_BOOT_MAGIC P
   \<and> version (bootImage (generate_init P st)) = mHSS_BOOT_VERSION P
   \<and> headerLength (bootImage (generate_init P st)) = headerLength (bootImage st)
   \<and> headerCrc (bootImage (generate_init P st)) = headerCrc (bootImage st)
   \<and> chunkTableOffset (bootImage (generate_init P st)) = chunkTableOffset (bootImage st)
   \<and> ziChunkTableOffset (bootImage (generate_init P st)) = ziChunkTableOffset (bootImage st)
   \<and> bootImageLength (bootImage (generate_init P st)) = bootImageLength (bootImage st)
   \<and> signature (bootImage (generate_init P st)) = signature (bootImage st)
   \<and> other_members (bootImage (generate_init P st)) = other_members (bootImage st)
   \<and> generate_init P st =
       st\<lparr>bootImage := (bootImage (generate_init P st))\<rparr>
   \<and> (bootImage (generate_init P st))
        \<lparr>magic := magic (bootImage st), version := version (bootImage st)\<rparr> = bootImage st"
  by (simp add: generate_init_def)

lemma loadAddr_assign_loadAddr:
  "i < length es \<Longrightarrow>
   loadAddr (chunk (assign_loadAddr a es ! i)) =
     a + sum_list (map (\<lambda>e. padded8 (chunk_size (chunk e))) (take i es))"
proof (induction es arbitrary: a i)
  case Nil
  then show ?case by simp
next
  case (Cons e es)
  show ?case
  proof (cases i)
    case 0
    then show ?thesis by simp
  next
    case (Suc j)
    with Cons.prems have "j < length es" by simp
    from Cons.IH[OF this] show ?thesis by (simp add: Suc add.assoc)
  qed
qed

lemma final_header_layout:
  "chunkTableOffset (final_header P key st) = chunkTableOffset (laid_out_header P st)"
  "ziChunkTableOffset (final_header P key st) = ziChunkTableOffset (laid_out_header P st)"
  "headerLength (final_header P key st) = headerLength (laid_out_header P st)"
  "bootImageLength (final_header P key st) = bootImageLength (laid_out_header P st)"
  "headerCrc (final_header P key st) = CRC32_calculate P (bytes_BootImage P (laid_out_header P st))"
  "magic (final_header P key st) = magic (bootImage st)"
  "version (final_header P key st) = version (bootImage st)"
  "other_members (final_header P key st) = other_members (bootImage st)"
  by (simp_all add: final_header_def checksummed_header_def laid_out_header_def
      split: option.splits prod.splits)

lemma chunk_release [simp]: "chunk (release e) = chunk e"
  by (simp add: release_def)

section \<open>Load addresses\<close>

text \<open>
  C1. After any sequence of additions that all return (with at least one chunk of
  non-zero size, each buffer holding its \<open>size\<close> bytes) and one finalisation on which
  no stream call fails, the load address of chunk \<open>i\<close> is the chunk-table offset, plus
  the padded size of the chunk table with its sentinel, plus the padded size of the ZI
  table with its sentinel, plus the padded sizes of the chunks before \<open>i\<close>, in
  \<^verbatim>\<open>size_t\<close> arithmetic. Of the chunks themselves only those before \<open>i\<close> occur
  in it.
\<close>

theorem loadAddr_of_every_chunk:
  assumes "wf_platform P"
    and "builder_calls calls (generate_init P (startup other heap)) = Inr st"
    and "list_all buffer_holds calls"
    and "length calls < 2 ^ 64"
    and "added_chunks calls \<noteq> []"
    and "signing_ok P key st"
  shows "\<exists>file st'. generate_payload P None fn key st = Inr (file, st')
           \<and> length (chunkTable st') = length (added_chunks calls)
           \<and> chunkTableOffset (bootImage st') = padded8 (sizeof_BootImage P)
           \<and> (\<forall>i < length (added_chunks calls).
                loadAddr (chunk (chunkTable st' ! i)) =
                  chunkTableOffset (bootImage st')
                  + padded8 (sizeof_BootChunkDesc P * (word_of_nat (length (added_chunks calls)) + 1))
                  + padded8 (sizeof_BootZIChunkDesc P * (word_of_nat (length (added_ziChunks calls)) + 1))
                  + sum_list (map (\<lambda>e. padded8 (chunk_size (chunk e))) (take i (added_chunks calls))))"
proof -
  have rd: "ready st" by (rule builder_calls_ready[OF assms(2,3,4,5)])
  note bs = builder_calls_startup[OF assms(2)]
  from generate_payload_completes[OF assms(1) rd assms(6), of fn]
  obtain st' where run: "generate_payload P None fn key st =
                 Inr (header_bytes P (final_header P key st) @ image_body P st, st')"
    and h: "bootImage st' = final_header P key st"
    and t: "chunkTable st' = map release (addressed_chunks P st)"
    by blast
  have len: "length (chunkTable st') = length (added_chunks calls)"
    by (simp add: t addressed_chunks_def bs(1))
  have addr: "loadAddr (chunk (chunkTable st' ! i)) =
                  chunkTableOffset (bootImage st')
                  + padded8 (sizeof_BootChunkDesc P * (word_of_nat (length (added_chunks calls)) + 1))
                  + padded8 (sizeof_BootZIChunkDesc P * (word_of_nat (length (added_ziChunks calls)) + 1))
                  + sum_list (map (\<lambda>e. padded8 (chunk_size (chunk e))) (take i (added_chunks calls)))"
    if i: "i < length (added_chunks calls)" for i
  proof -
    have "chunkTable st' ! i = release (addressed_chunks P st ! i)"
      using i by (simp add: t addressed_chunks_def bs(1))
    then have "loadAddr (chunk (chunkTable st' ! i)) = loadAddr (chunk (addressed_chunks P st ! i))"
      by simp
    also have "\<dots> = first_blob_offset P (padded8 (sizeof_BootImage P)) (numChunks st) (numZIChunks st)
                    + sum_list (map (\<lambda>e. padded8 (chunk_size (chunk e))) (take i (chunkTable st)))"
      unfolding addressed_chunks_def using i by (intro loadAddr_assign_loadAddr) (simp add: bs(1))
    finally show ?thesis
      by (simp add: h final_header_layout laid_out_header_def first_blob_offset_def bs)
  qed
  have cto: "chunkTableOffset (bootImage st') = padded8 (sizeof_BootImage P)"
    by (simp add: h final_header_layout laid_out_header_def)
  from run len cto addr show ?thesis by blast
qed

lemma length_le_bytes [simp]: "length (le_bytes k n) = k"
  by (induction k arbitrary: n) simp_all

lemma length_fixed_bytes [simp]: "length (fixed_bytes k bs) = k"
  by (simp add: fixed_bytes_def)

lemma wf_test_platform: "wf_platform test_platform"
  by (simp add: wf_platform_def test_platform_def lp64_BootImage_def lp64_BootChunkDesc_def
      lp64_BootZIChunkDesc_def)

lemma sample_built:
  "builder_calls sample_calls (generate_init test_platform (startup [] None)) = Inr sample_state"
  by (simp add: sample_calls_def generate_init_def startup_def test_platform_def
      generate_add_chunk_def generate_add_ziChunk_def realloc_def Let_def sample_state_def)

lemma sample_holds: "list_all buffer_holds sample_calls"
  by (simp add: sample_calls_def)

lemma sample_length: "length sample_calls < 2 ^ 64"
  by (simp add: sample_calls_def)

lemma sample_added: "added_chunks sample_calls \<noteq> []"
  by (simp add: sample_calls_def)

lemma sample_unsigned: "signing_ok test_platform None sample_state"
  by (simp add: signing_ok_def)

lemma sample_signed: "signing_ok test_platform (Some ''key.pem'') sample_state"
  by (simp add: signing_ok_def test_platform_def sample_state_def)

lemma padded8_values: "padded8 10 = 16" "padded8 20 = 24" "padded8 120 = 120" "padded8 48 = 48"
  "padded8 208 = 208"
  by (simp_all add: padded8_def pad8_def padding_needed_def)

theorem loadAddr_of_every_chunk_witness:
  "\<exists>file st'. generate_payload test_platform None ''payload.bin'' None sample_state = Inr (file, st')
     \<and> map (\<lambda>e. loadAddr (chunk e)) (chunkTable st') = [376, 392]"
proof -
  from loadAddr_of_every_chunk[OF wf_test_platform sample_built sample_holds sample_length
      sample_added sample_unsigned, of "''payload.bin''"]
  obtain img st' where run: "generate_payload test_platform None ''payload.bin'' None sample_state = Inr (img, st')"
    and len: "length (chunkTable st') = length (added_chunks sample_calls)"
    and c: "chunkTableOffset (bootImage st') = padded8 (sizeof_BootImage test_platform)"
    and addr: "\<forall>i < length (added_chunks sample_calls).
                loadAddr (chunk (chunkTable st' ! i)) =
                  chunkTableOffset (bootImage st')
                  + padded8 (sizeof_BootChunkDesc test_platform * (word_of_nat (length (added_chunks sample_calls)) + 1))
                  + padded8 (sizeof_BootZIChunkDesc test_platform * (word_of_nat (length (added_ziChunks sample_calls)) + 1))
                  + sum_list (map (\<lambda>e. padded8 (chunk_size (chunk e))) (take i (added_chunks sample_calls)))"
    by blast
  have t: "added_chunks sample_calls =
     [\<lparr>chunk = \<lparr>owner = 1, loadAddr = 0, execAddr = 0x80000000, chunk_size = 10, crc32 = 7\<rparr>,
       pBuffer = Some (replicate 10 0xAA)\<rparr>,
      \<lparr>chunk = \<lparr>owner = 2, loadAddr = 0, execAddr = 0x80003000, chunk_size = 20, crc32 = 9\<rparr>,
       pBuffer = Some (replicate 20 0xBB)\<rparr>]"
    and z: "length (added_ziChunks sample_calls) = 1"
    by (simp_all add: sample_calls_def)
  from len obtain e0 e1 where tbl: "chunkTable st' = [e0, e1]"
    by (auto simp: t length_Suc_conv)
  from addr[rule_format, of 0] addr[rule_format, of 1]
  have "loadAddr (chunk e0) = 376" "loadAddr (chunk e1) = 392"
    by (simp_all add: t z tbl c test_platform_def padded8_values)
  with run tbl show ?thesis by simp
qed

section \<open>The header fields\<close>

text \<open>
  C2. In every complete build the header carries: the chunk-table offset, which is the
  size of the header plus its padding to 8; the header length, which is the sum of the
  three padded sizes the run recorded (header, chunk table, ZI-chunk table, each with its
  sentinel); and the image length, which is the header length plus, for every chunk, its
  size and its padding. The image length is the length of the file.
\<close>

theorem header_fields_finalized:
  assumes "wf_platform P"
    and "builder_calls calls (generate_init P (startup other heap)) = Inr st"
    and "list_all buffer_holds calls"
    and "length calls < 2 ^ 64"
    and "added_chunks calls \<noteq> []"
    and "signing_ok P key st"
  shows "\<exists>file st'. generate_payload P None fn key st = Inr (file, st')
     \<and> calculate_padding (sizeof_BootImage P) PAD_SIZE = Inr (pad8 (sizeof_BootImage P))
     \<and> chunkTableOffset (bootImage st') = sizeof_BootImage P + pad8 (sizeof_BootImage P)
     \<and> bootImagePaddedSize st' = padded8 (sizeof_BootImage P)
     \<and> chunkTablePaddedSize st' =
           padded8 (sizeof_BootChunkDesc P * (word_of_nat (length (added_chunks calls)) + 1))
     \<and> ziChunkTablePaddedSize st' =
           padded8 (sizeof_BootZIChunkDesc P * (word_of_nat (length (added_ziChunks calls)) + 1))
     \<and> headerLength (bootImage st') =
           bootImagePaddedSize st' + chunkTablePaddedSize st' + ziChunkTablePaddedSize st'
     \<and> (\<forall>e \<in> set (added_chunks calls).
           calculate_padding (chunk_size (chunk e)) PAD_SIZE = Inr (pad8 (chunk_size (chunk e))))
     \<and> bootImageLength (bootImage st') =
           headerLength (bootImage st')
           + sum_list (map (\<lambda>e. chunk_size (chunk e) + pad8 (chunk_size (chunk e)))
                         (added_chunks calls))
     \<and> word_of_nat (length file) = bootImageLength (bootImage st')"
proof -
  have rd: "ready st" by (rule builder_calls_ready[OF assms(2,3,4,5)])
  note bs = builder_calls_startup[OF assms(2)]
  from generate_payload_completes[OF assms(1) rd assms(6), of fn]
  obtain st' where run: "generate_payload P None fn key st =
                 Inr (header_bytes P (final_header P key st) @ image_body P st, st')"
    and h: "bootImage st' = final_header P key st"
    and sz: "bootImagePaddedSize st' = padded8 (sizeof_BootImage P)"
      "chunkTablePaddedSize st' = padded8 (sizeof_BootChunkDesc P * (numChunks st + 1))"
      "ziChunkTablePaddedSize st' = padded8 (sizeof_BootZIChunkDesc P * (numZIChunks st + 1))"
    by blast
  from rd have nc: "unat (numChunks st) = length (chunkTable st)"
    and nz: "unat (numZIChunks st) = length (ziChunkTable st)"
    and ok: "\<forall>e \<in> set (chunkTable st). buffer_ok e"
    by (simp_all add: ready_def)
  have len: "(word_of_nat (length (header_bytes P (final_header P key st) @ image_body P st)) :: size_t)
             = bootImageLength (bootImage st')"
    using word_length_image[OF assms(1) nc nz ok, of "final_header P key st"]
    by (simp add: h final_header_layout checksummed_header_def)
  have "chunkTableOffset (bootImage st') = sizeof_BootImage P + pad8 (sizeof_BootImage P)"
    by (simp add: h final_header_layout laid_out_header_def padded8_def)
  moreover have "headerLength (bootImage st') =
           bootImagePaddedSize st' + chunkTablePaddedSize st' + ziChunkTablePaddedSize st'"
    by (simp add: h final_header_layout laid_out_header_def sz)
  moreover have "bootImageLength (bootImage st') =
           headerLength (bootImage st')
           + sum_list (map (\<lambda>e. chunk_size (chunk e) + pad8 (chunk_size (chunk e)))
                         (added_chunks calls))"
    by (simp add: h final_header_layout laid_out_header_def bs(1) padded8_def)
  ultimately show ?thesis
    using run len sz by (simp add: bs calculate_padding_PAD_SIZE)
qed

theorem header_fields_finalized_witness:
  "\<exists>file st'. generate_payload test_platform None ''payload.bin'' (Some ''key.pem'') sample_state
                = Inr (file, st')
     \<and> chunkTableOffset (bootImage st') = 208
     \<and> headerLength (bootImage st') = 376
     \<and> bootImageLength (bootImage st') = 416
     \<and> (word_of_nat (length file) :: size_t) = 416"
proof -
  from header_fields_finalized[OF wf_test_platform sample_built sample_holds sample_length
      sample_added sample_signed, of "''payload.bin''"]
  obtain img st' where run: "generate_payload test_platform None ''payload.bin'' (Some ''key.pem'') sample_state
                = Inr (img, st')"
    and a: "chunkTableOffset (bootImage st') = sizeof_BootImage test_platform + pad8 (sizeof_BootImage test_platform)"
    and b: "bootImagePaddedSize st' = padded8 (sizeof_BootImage test_platform)"
     "chunkTablePaddedSize st' =
           padded8 (sizeof_BootChunkDesc test_platform * (word_of_nat (length (added_chunks sample_calls)) + 1))"
     "ziChunkTablePaddedSize st' =
           padded8 (sizeof_BootZIChunkDesc test_platform * (word_of_nat (length (added_ziChunks sample_calls)) + 1))"
    and c: "headerLength (bootImage st') =
           bootImagePaddedSize st' + chunkTablePaddedSize st' + ziChunkTablePaddedSize st'"
    and d: "bootImageLength (bootImage st') =
           headerLength (bootImage st')
           + sum_list (map (\<lambda>e. chunk_size (chunk e) + pad8 (chunk_size (chunk e)))
                         (added_chunks sample_calls))"
    and e: "word_of_nat (length img) = bootImageLength (bootImage st')"
    by blast
  have p: "pad8 (208 :: size_t) = 0" "pad8 (10 :: size_t) = 6" "pad8 (20 :: size_t) = 4"
    by (simp_all add: pad8_def padding_needed_def)
  have a': "chunkTableOffset (bootImage st') = 208"
    using a by (simp add: test_platform_def p)
  have c': "headerLength (bootImage st') = 376"
    using c b by (simp add: test_platform_def sample_calls_def padded8_values)
  have d': "bootImageLength (bootImage st') = 416"
    using d c' by (simp add: sample_calls_def p)
  from run a' c' d' e show ?thesis by simp
qed

lemma padding_needed_mod:
  "padding_needed (n mod 2 ^ 64) 8 = padding_needed n 8"
proof -
  have "(8::nat) dvd 2 ^ 64" by (simp add: dvd_def)
  then have "n mod 2 ^ 64 mod 8 = n mod 8" by (rule mod_mod_cancel)
  then show ?thesis by (simp add: padding_needed_def)
qed

lemma dvd8_padding_needed: "8 dvd n + padding_needed n 8"
  using padding_needed_props(2)[of 8 n] by (simp add: mod_eq_0_iff_dvd)

lemma unat_sizeof_times:
  "unat ((c :: size_t) * (word_of_nat k + 1)) = (unat c * Suc k) mod 2 ^ 64"
proof -
  have "(word_of_nat k + 1 :: size_t) = word_of_nat (Suc k)" by simp
  then have "unat (c * (word_of_nat k + 1)) = (unat c * (Suc k mod 2 ^ 64)) mod 2 ^ 64"
    by (simp only: unat_word_ariths unat_of_nat) simp
  then show ?thesis by (simp add: mod_mult_right_eq)
qed

lemma dvd8_table_length:
  "8 dvd k * unat (c :: size_t) + unat c + unat (pad8 (c * (word_of_nat k + 1)))"
proof -
  have "unat (pad8 (c * (word_of_nat k + 1))) = padding_needed (unat c * Suc k) 8"
    by (simp only: unat_pad8 unat_sizeof_times padding_needed_mod)
  moreover have "k * unat c + unat c = unat c * Suc k" by simp
  ultimately show ?thesis using dvd8_padding_needed[of "unat c * Suc k"] by (simp only:)
qed

lemma dvd8_length_header_bytes:
  assumes "wf_platform P"
  shows "8 dvd length (header_bytes P h)"
  using dvd8_padding_needed[of "unat (sizeof_BootImage P)"]
  by (simp add: length_header_bytes[OF assms] unat_pad8)

lemma dvd8_length_chunk_table_bytes:
  assumes "wf_platform P"
  shows "8 dvd length (chunk_table_bytes P tbl)"
  unfolding length_chunk_table_bytes[OF assms] by (rule dvd8_table_length)

lemma dvd8_length_ziChunk_table_bytes:
  assumes "wf_platform P"
  shows "8 dvd length (ziChunk_table_bytes P zis)"
  unfolding length_ziChunk_table_bytes[OF assms] by (rule dvd8_table_length)

lemma dvd8_length_blob_bytes:
  "buffer_ok e \<Longrightarrow> 8 dvd length (blob_bytes e)"
  using dvd8_padding_needed[of "unat (chunk_size (chunk e))"]
  by (simp add: length_blob_bytes unat_pad8)

lemma dvd8_length_blobs:
  "\<forall>e \<in> set es. buffer_ok e \<Longrightarrow> 8 dvd length (concat (map blob_bytes es))"
  by (induction es) (simp_all add: dvd8_length_blob_bytes)

lemma dvd8_assign_loadAddr:
  "8 dvd unat a \<Longrightarrow> \<forall>e \<in> set (assign_loadAddr a es). 8 dvd unat (loadAddr (chunk e))"
proof (induction es arbitrary: a)
  case Nil
  show ?case by simp
next
  case (Cons e es)
  have "8 dvd unat (a + padded8 (chunk_size (chunk e)))"
    by (rule dvd8_unat_add) (simp add: Cons.prems dvd8_padded8)
  from Cons.IH[OF this] Cons.prems show ?case by simp
qed

lemma dvd8_first_blob_offset:
  "8 dvd unat (first_blob_offset P (padded8 s) n m)"
  unfolding first_blob_offset_def
  by (intro dvd8_unat_add dvd_add dvd8_padded8)

lemma chunk_table_bytes_release [simp]:
  "chunk_table_bytes P (map release tbl) = chunk_table_bytes P tbl"
  by (simp add: chunk_table_bytes_def comp_def)

section \<open>Alignment\<close>

text \<open>
  C3. A complete build writes the header, the chunk table, the ZI-chunk table and the
  blobs one after the other from offset 0; the offset at which each of them ends is a
  multiple of 8, and so is the load address of every chunk.
\<close>

theorem sections_end_aligned:
  assumes "wf_platform P"
    and "builder_calls calls (generate_init P (startup other heap)) = Inr st"
    and "list_all buffer_holds calls"
    and "length calls < 2 ^ 64"
    and "added_chunks calls \<noteq> []"
    and "signing_ok P key st"
  shows "\<exists>file st'. generate_payload P None fn key st = Inr (file, st')
     \<and> file = header_bytes P (bootImage st') @ chunk_table_bytes P (chunkTable st')
              @ ziChunk_table_bytes P (ziChunkTable st')
              @ concat (map blob_bytes (added_chunks calls))
     \<and> 8 dvd length (header_bytes P (bootImage st'))
     \<and> 8 dvd length (header_bytes P (bootImage st') @ chunk_table_bytes P (chunkTable st'))
     \<and> 8 dvd length (header_bytes P (bootImage st') @ chunk_table_bytes P (chunkTable st')
                      @ ziChunk_table_bytes P (ziChunkTable st'))
     \<and> (\<forall>i \<le> length (added_chunks calls).
           8 dvd length (header_bytes P (bootImage st') @ chunk_table_bytes P (chunkTable st')
                         @ ziChunk_table_bytes P (ziChunkTable st')
                         @ concat (map blob_bytes (take i (added_chunks calls)))))
     \<and> (\<forall>e \<in> set (chunkTable st'). 8 dvd unat (loadAddr (chunk e)))"
proof -
  have rd: "ready st" by (rule builder_calls_ready[OF assms(2,3,4,5)])
  note bs = builder_calls_startup[OF assms(2)]
  from rd have ok: "\<forall>e \<in> set (chunkTable st). buffer_ok e" by (simp add: ready_def)
  from generate_payload_completes[OF assms(1) rd assms(6), of fn]
  obtain st' where run: "generate_payload P None fn key st =
                 Inr (header_bytes P (final_header P key st) @ image_body P st, st')"
    and h: "bootImage st' = final_header P key st"
    and t: "chunkTable st' = map release (addressed_chunks P st)"
    and z: "ziChunkTable st' = ziChunkTable st"
    by blast
  let ?H = "header_bytes P (bootImage st')"
  let ?CT = "chunk_table_bytes P (chunkTable st')"
  let ?ZT = "ziChunk_table_bytes P (ziChunkTable st')"
  have img: "header_bytes P (final_header P key st) @ image_body P st
             = ?H @ ?CT @ ?ZT @ concat (map blob_bytes (added_chunks calls))"
    by (simp add: h t z image_body_def bs(1))
  have dH: "8 dvd length ?H" by (rule dvd8_length_header_bytes[OF assms(1)])
  have dC: "8 dvd length ?CT" by (rule dvd8_length_chunk_table_bytes[OF assms(1)])
  have dZ: "8 dvd length ?ZT" by (rule dvd8_length_ziChunk_table_bytes[OF assms(1)])
  have dB: "8 dvd length (concat (map blob_bytes (take i (added_chunks calls))))" for i
  proof (rule dvd8_length_blobs)
    show "\<forall>e \<in> set (take i (added_chunks calls)). buffer_ok e"
      using ok bs(1) by (auto dest: in_set_takeD)
  qed
  have dA: "\<forall>e \<in> set (chunkTable st'). 8 dvd unat (loadAddr (chunk e))"
    using dvd8_assign_loadAddr[OF dvd8_first_blob_offset,
        of P "sizeof_BootImage P" "numChunks st" "numZIChunks st" "chunkTable st"]
    by (simp add: t addressed_chunks_def)
  show ?thesis
    using run img dH dC dZ dB dA by (simp add: dvd_add)
qed

theorem sections_end_aligned_witness:
  "\<exists>file st'. generate_payload test_platform None ''payload.bin'' None sample_state = Inr (file, st')
     \<and> 8 dvd length file
     \<and> (\<forall>e \<in> set (chunkTable st'). 8 dvd unat (loadAddr (chunk e)))"
proof -
  from sections_end_aligned[OF wf_test_platform sample_built sample_holds sample_length
      sample_added sample_unsigned, of "''payload.bin''"]
  obtain img st' where run: "generate_payload test_platform None ''payload.bin'' None sample_state = Inr (img, st')"
    and f: "img = header_bytes test_platform (bootImage st') @ chunk_table_bytes test_platform (chunkTable st')
              @ ziChunk_table_bytes test_platform (ziChunkTable st')
              @ concat (map blob_bytes (added_chunks sample_calls))"
    and e: "\<forall>i \<le> length (added_chunks sample_calls).
           8 dvd length (header_bytes test_platform (bootImage st') @ chunk_table_bytes test_platform (chunkTable st')
                         @ ziChunk_table_bytes test_platform (ziChunkTable st')
                         @ concat (map blob_bytes (take i (added_chunks sample_calls))))"
    and a: "\<forall>e \<in> set (chunkTable st'). 8 dvd unat (loadAddr (chunk e))"
    by blast
  from e[rule_format, of "length (added_chunks sample_calls)"] f
  have "8 dvd length img" by simp
  with run a show ?thesis by blast
qed

lemma tables_phase:
  assumes wf: "wf_platform P"
    and nc: "unat (numChunks st) = length (chunkTable st)"
    and nz: "unat (numZIChunks st) = length (ziChunkTable st)"
  shows "\<exists>f1 s1 f2 s2 f3 s3.
           generate_header P (stream [] 0) st = Inr (f1, s1)
           \<and> generate_chunks P f1 s1 = Inr (f2, s2)
           \<and> generate_ziChunks P f2 s2 = Inr (f3, s3)
           \<and> chunkTable s3 = addressed_chunks P st
           \<and> ziChunkTable s3 = ziChunkTable st
           \<and> contents f3 = header_bytes P (bootImage st)
                            @ chunk_table_bytes P (addressed_chunks P st)
                            @ ziChunk_table_bytes P (ziChunkTable st)"
proof -
  define S where "S = sizeof_BootImage P"
  define szC where "szC = sizeof_BootChunkDesc P"
  define szZ where "szZ = sizeof_BootZIChunkDesc P"
  define H0 where "H0 = header_bytes P (bootImage st)"
  define AC where "AC = addressed_chunks P st"
  define CT where "CT = chunk_table_bytes P AC"
  define ZT where "ZT = ziChunk_table_bytes P (ziChunkTable st)"
  define s1 where "s1 = st\<lparr>bootImagePaddedSize := padded8 S\<rparr>"
  define s2 where "s2 = s1\<lparr>bootImage := (bootImage s1)\<lparr>chunkTableOffset := padded8 S\<rparr>,
             chunkTable := AC,
             chunkTablePaddedSize := padded8 (szC * (numChunks s1 + 1))\<rparr>"
  define p2 where "p2 = length H0 + length CT"
  define s3 where "s3 = s2\<lparr>bootImage := (bootImage s2)\<lparr>ziChunkTableOffset := word_of_nat p2\<rparr>,
             ziChunkTablePaddedSize := padded8 (szZ * (numZIChunks s2 + 1))\<rparr>"
  define p3 where "p3 = p2 + length ZT"
  have lenAC: "length AC = length (chunkTable st)" by (simp add: AC_def addressed_chunks_def)
  have nw: "word_of_nat (length (chunkTable st)) = numChunks st" by (rule numChunks_of_nat[OF nc])
  have wH0: "(word_of_nat (length H0) :: size_t) = padded8 S"
    unfolding H0_def S_def by (rule word_length_header_bytes[OF wf])
  have wCT: "(word_of_nat (length CT) :: size_t) = padded8 (szC * (numChunks st + 1))"
    unfolding CT_def szC_def using word_length_chunk_table_bytes[OF wf, of AC] by (simp add: lenAC nw)
  have wp2: "(word_of_nat p2 :: size_t) = padded8 S + padded8 (szC * (numChunks st + 1))"
    by (simp add: p2_def wH0 wCT)
  have step1: "generate_header P (stream [] 0) st = Inr (stream H0 (length H0), s1)"
    using generate_header_stream'[OF wf, of "[]" 0 st]
    by (simp add: H0_def s1_def S_def store_start)
  have step2: "generate_chunks P (stream H0 (length H0)) s1 = Inr (stream (H0 @ CT) p2, s2)"
  proof -
    have a: "unat (numChunks s1) = length (chunkTable s1)" using nc by (simp add: s1_def)
    have b: "length H0 = length (header_bytes P (bootImage st))" by (simp add: H0_def)
    have c: "length (chunk_table_bytes P (chunkTable s1)) = length CT"
      by (simp add: length_chunk_table_bytes[OF wf] CT_def lenAC s1_def)
    show ?thesis
      using generate_chunks_stream[OF wf a refl b] c
      by (simp add: s2_def CT_def AC_def addressed_chunks_def p2_def S_def szC_def s1_def)
  qed
  have step3: "generate_ziChunks P (stream (H0 @ CT) p2) s2 = Inr (stream (H0 @ CT @ ZT) p3, s3)"
  proof -
    have a: "unat (numZIChunks s2) = length (ziChunkTable s2)" using nz by (simp add: s2_def s1_def)
    have b: "p2 = length (H0 @ CT)" by (simp add: p2_def)
    have c: "(word_of_nat p2 :: size_t) =
                chunkTableOffset (bootImage s2) + padded8 (sizeof_BootChunkDesc P * (numChunks s2 + 1))"
      by (simp add: wp2 s2_def s1_def szC_def)
    show ?thesis
      using generate_ziChunks_stream[OF wf a b c]
      by (simp add: s3_def ZT_def p3_def szZ_def s2_def s1_def)
  qed
  have "chunkTable s3 = addressed_chunks P st" "ziChunkTable s3 = ziChunkTable st"
    by (simp_all add: s3_def s2_def s1_def AC_def)
  moreover have "contents (stream (H0 @ CT @ ZT) p3) = header_bytes P (bootImage st)
                            @ chunk_table_bytes P (addressed_chunks P st)
                            @ ziChunk_table_bytes P (ziChunkTable st)"
    by (simp add: stream_def H0_def CT_def AC_def ZT_def)
  ultimately show ?thesis using step1 step2 step3 by blast
qed

lemma builder_calls_counts:
  assumes b: "builder_calls calls (generate_init P (startup other heap)) = Inr st"
    and l: "length calls < 2 ^ 64"
  shows "unat (numChunks st) = length (chunkTable st)"
    and "unat (numZIChunks st) = length (ziChunkTable st)"
proof -
  have a: "length (added_chunks calls) < 2 ^ 64" "length (added_ziChunks calls) < 2 ^ 64"
    using l length_added[of calls] by simp_all
  show "unat (numChunks st) = length (chunkTable st)"
    unfolding builder_calls_startup[OF b] using a by (simp add: unat_of_nat_small)
  show "unat (numZIChunks st) = length (ziChunkTable st)"
    unfolding builder_calls_startup[OF b] using a by (simp add: unat_of_nat_small)
qed

lemma added_chunks_nonzero: "\<forall>e \<in> set (added_chunks calls). chunk_size (chunk e) \<noteq> 0"
  by (induction calls rule: added_chunks.induct) simp_all

lemma assign_loadAddr_descriptor:
  "i < length es \<Longrightarrow>
   (chunk (assign_loadAddr a es ! i))\<lparr>loadAddr := 0\<rparr> = (chunk (es ! i))\<lparr>loadAddr := 0\<rparr>"
proof (induction es arbitrary: a i)
  case Nil
  then show ?case by simp
next
  case (Cons e es)
  then show ?case by (cases i) simp_all
qed

lemma chunk_table_bytes_explicit:
  "chunk_table_bytes P tbl =
     concat (map (\<lambda>e. bytes_BootChunkDesc P (chunk e)) tbl)
     @ bytes_BootChunkDesc P \<lparr>owner = 0, loadAddr = 0, execAddr = 0, chunk_size = 0, crc32 = 0\<rparr>
     @ replicate (unat (pad8 (sizeof_BootChunkDesc P * (word_of_nat (length tbl) + 1)))) 0"
  by (simp add: chunk_table_bytes_def chunk_sentinel_def)

lemma ziChunk_table_bytes_explicit:
  "ziChunk_table_bytes P zis =
     concat (map (bytes_BootZIChunkDesc P) zis)
     @ bytes_BootZIChunkDesc P \<lparr>zi_owner = 0, zi_execAddr = 0, zi_size = 0\<rparr>
     @ replicate (unat (pad8 (sizeof_BootZIChunkDesc P * (word_of_nat (length zis) + 1)))) 0"
  by (simp add: ziChunk_table_bytes_def ziChunk_sentinel_def)

section \<open>The descriptor tables\<close>

text \<open>
  C4. With \<open>N\<close> chunks of non-zero size and \<open>M\<close> ZI chunks added, the header pass, the
  chunk-table pass and the ZI-table pass leave in the stream, after the padded header:
  the \<open>N\<close> chunk descriptors in the order they were added (each as it was added but for
  its load address, each of non-zero size), one all-zero descriptor, padding; then the
  \<open>M\<close> ZI descriptors as added, one all-zero ZI descriptor, padding. This holds for every
  \<open>N\<close> and \<open>M\<close>, zero included. When the build completes (which needs \<open>N > 0\<close>), the
  finished file has the same two tables between its header and its blobs.
\<close>

theorem tables_serialized:
  assumes "wf_platform P"
    and "builder_calls calls (generate_init P (startup other heap)) = Inr st"
    and "length calls < 2 ^ 64"
  shows "(\<exists>f0 f1 s1 f2 s2 f3 s3.
            fopen None fn = Some f0
            \<and> generate_header P f0 st = Inr (f1, s1)
            \<and> generate_chunks P f1 s1 = Inr (f2, s2)
            \<and> generate_ziChunks P f2 s2 = Inr (f3, s3)
            \<and> length (chunkTable s3) = length (added_chunks calls)
            \<and> (\<forall>i < length (added_chunks calls).
                  (chunk (chunkTable s3 ! i))\<lparr>loadAddr := 0\<rparr>
                    = (chunk (added_chunks calls ! i))\<lparr>loadAddr := 0\<rparr>
                  \<and> chunk_size (chunk (chunkTable s3 ! i)) \<noteq> 0)
            \<and> contents f3 =
                 header_bytes P (bootImage st)
                 @ (concat (map (\<lambda>e. bytes_BootChunkDesc P (chunk e)) (chunkTable s3))
                    @ bytes_BootChunkDesc P
                        \<lparr>owner = 0, loadAddr = 0, execAddr = 0, chunk_size = 0, crc32 = 0\<rparr>
                    @ replicate (unat (pad8 (sizeof_BootChunkDesc P
                          * (word_of_nat (length (added_chunks calls)) + 1)))) 0)
                 @ (concat (map (bytes_BootZIChunkDesc P) (added_ziChunks calls))
                    @ bytes_BootZIChunkDesc P \<lparr>zi_owner = 0, zi_execAddr = 0, zi_size = 0\<rparr>
                    @ replicate (unat (pad8 (sizeof_BootZIChunkDesc P
                          * (word_of_nat (length (added_ziChunks calls)) + 1)))) 0))
         \<and> (list_all buffer_holds calls \<and> added_chunks calls \<noteq> [] \<and> signing_ok P key st \<longrightarrow>
             (\<exists>file st'. generate_payload P None fn key st = Inr (file, st')
                \<and> length (chunkTable st') = length (added_chunks calls)
                \<and> (\<forall>i < length (added_chunks calls).
                      (chunk (chunkTable st' ! i))\<lparr>loadAddr := 0\<rparr>
                        = (chunk (added_chunks calls ! i))\<lparr>loadAddr := 0\<rparr>
                      \<and> chunk_size (chunk (chunkTable st' ! i)) \<noteq> 0)
                \<and> file =
                     header_bytes P (bootImage st')
                     @ (concat (map (\<lambda>e. bytes_BootChunkDesc P (chunk e)) (chunkTable st'))
                        @ bytes_BootChunkDesc P
                            \<lparr>owner = 0, loadAddr = 0, execAddr = 0, chunk_size = 0, crc32 = 0\<rparr>
                        @ replicate (unat (pad8 (sizeof_BootChunkDesc P
                              * (word_of_nat (length (added_chunks calls)) + 1)))) 0)
                     @ (concat (map (bytes_BootZIChunkDesc P) (added_ziChunks calls))
                        @ bytes_BootZIChunkDesc P \<lparr>zi_owner = 0, zi_execAddr = 0, zi_size = 0\<rparr>
                        @ replicate (unat (pad8 (sizeof_BootZIChunkDesc P
                              * (word_of_nat (length (added_ziChunks calls)) + 1)))) 0)
                     @ concat (map blob_bytes (added_chunks calls))))"
proof -
  note bs = builder_calls_startup[OF assms(2)]
  note cnt = builder_calls_counts[OF assms(2,3)]
  have lenA: "length (addressed_chunks P st) = length (added_chunks calls)"
    by (simp add: addressed_chunks_def bs(1))
  have desc: "(chunk (addressed_chunks P st ! i))\<lparr>loadAddr := 0\<rparr>
                = (chunk (added_chunks calls ! i))\<lparr>loadAddr := 0\<rparr>
              \<and> chunk_size (chunk (addressed_chunks P st ! i)) \<noteq> 0"
    if i: "i < length (added_chunks calls)" for i
  proof -
    have d: "(chunk (addressed_chunks P st ! i))\<lparr>loadAddr := 0\<rparr>
                = (chunk (added_chunks calls ! i))\<lparr>loadAddr := 0\<rparr>"
      unfolding addressed_chunks_def bs(1) by (rule assign_loadAddr_descriptor[OF i])
    have "chunk_size (chunk (added_chunks calls ! i)) \<noteq> 0"
      using added_chunks_nonzero[of calls] i by simp
    moreover have "chunk_size (chunk (addressed_chunks P st ! i))
                   = chunk_size ((chunk (addressed_chunks P st ! i))\<lparr>loadAddr := 0\<rparr>)"
      by simp
    ultimately show ?thesis using d by simp
  qed
  have first: "\<exists>f0 f1 s1 f2 s2 f3 s3.
            fopen None fn = Some f0
            \<and> generate_header P f0 st = Inr (f1, s1)
            \<and> generate_chunks P f1 s1 = Inr (f2, s2)
            \<and> generate_ziChunks P f2 s2 = Inr (f3, s3)
            \<and> length (chunkTable s3) = length (added_chunks calls)
            \<and> (\<forall>i < length (added_chunks calls).
                  (chunk (chunkTable s3 ! i))\<lparr>loadAddr := 0\<rparr>
                    = (chunk (added_chunks calls ! i))\<lparr>loadAddr := 0\<rparr>
                  \<and> chunk_size (chunk (chunkTable s3 ! i)) \<noteq> 0)
            \<and> contents f3 =
                 header_bytes P (bootImage st)
                 @ (concat (map (\<lambda>e. bytes_BootChunkDesc P (chunk e)) (chunkTable s3))
                    @ bytes_BootChunkDesc P
                        \<lparr>owner = 0, loadAddr = 0, execAddr = 0, chunk_size = 0, crc32 = 0\<rparr>
                    @ replicate (unat (pad8 (sizeof_BootChunkDesc P
                          * (word_of_nat (length (added_chunks calls)) + 1)))) 0)
                 @ (concat (map (bytes_BootZIChunkDesc P) (added_ziChunks calls))
                    @ bytes_BootZIChunkDesc P \<lparr>zi_owner = 0, zi_execAddr = 0, zi_size = 0\<rparr>
                    @ replicate (unat (pad8 (sizeof_BootZIChunkDesc P
                          * (word_of_nat (length (added_ziChunks calls)) + 1)))) 0)"
  proof -
    from tables_phase[OF assms(1) cnt]
    obtain f1 s1 f2 s2 f3 s3 where
      "generate_header P (stream [] 0) st = Inr (f1, s1)"
      "generate_chunks P f1 s1 = Inr (f2, s2)"
      "generate_ziChunks P f2 s2 = Inr (f3, s3)"
      and t: "chunkTable s3 = addressed_chunks P st"
      and "contents f3 = header_bytes P (bootImage st)
                            @ chunk_table_bytes P (addressed_chunks P st)
                            @ ziChunk_table_bytes P (ziChunkTable st)"
      by blast
    then have "fopen None fn = Some (stream [] 0)
            \<and> generate_header P (stream [] 0) st = Inr (f1, s1)
            \<and> generate_chunks P f1 s1 = Inr (f2, s2)
            \<and> generate_ziChunks P f2 s2 = Inr (f3, s3)
            \<and> length (chunkTable s3) = length (added_chunks calls)
            \<and> (\<forall>i < length (added_chunks calls).
                  (chunk (chunkTable s3 ! i))\<lparr>loadAddr := 0\<rparr>
                    = (chunk (added_chunks calls ! i))\<lparr>loadAddr := 0\<rparr>
                  \<and> chunk_size (chunk (chunkTable s3 ! i)) \<noteq> 0)
            \<and> contents f3 =
                 header_bytes P (bootImage st)
                 @ (concat (map (\<lambda>e. bytes_BootChunkDesc P (chunk e)) (chunkTable s3))
                    @ bytes_BootChunkDesc P
                        \<lparr>owner = 0, loadAddr = 0, execAddr = 0, chunk_size = 0, crc32 = 0\<rparr>
                    @ replicate (unat (pad8 (sizeof_BootChunkDesc P
                          * (word_of_nat (length (added_chunks calls)) + 1)))) 0)
                 @ (concat (map (bytes_BootZIChunkDesc P) (added_ziChunks calls))
                    @ bytes_BootZIChunkDesc P \<lparr>zi_owner = 0, zi_execAddr = 0, zi_size = 0\<rparr>
                    @ replicate (unat (pad8 (sizeof_BootZIChunkDesc P
                          * (word_of_nat (length (added_ziChunks calls)) + 1)))) 0)"
      using lenA desc
      by (simp add: t bs(2) chunk_table_bytes_explicit ziChunk_table_bytes_explicit)
    then show ?thesis by blast
  qed
  have second: "\<exists>file st'. generate_payload P None fn key st = Inr (file, st')
                \<and> length (chunkTable st') = length (added_chunks calls)
                \<and> (\<forall>i < length (added_chunks calls).
                      (chunk (chunkTable st' ! i))\<lparr>loadAddr := 0\<rparr>
                        = (chunk (added_chunks calls ! i))\<lparr>loadAddr := 0\<rparr>
                      \<and> chunk_size (chunk (chunkTable st' ! i)) \<noteq> 0)
                \<and> file =
                     header_bytes P (bootImage st')
                     @ (concat (map (\<lambda>e. bytes_BootChunkDesc P (chunk e)) (chunkTable st'))
                        @ bytes_BootChunkDesc P
                            \<lparr>owner = 0, loadAddr = 0, execAddr = 0, chunk_size = 0, crc32 = 0\<rparr>
                        @ replicate (unat (pad8 (sizeof_BootChunkDesc P
                              * (word_of_nat (length (added_chunks calls)) + 1)))) 0)
                     @ (concat (map (bytes_BootZIChunkDesc P) (added_ziChunks calls))
                        @ bytes_BootZIChunkDesc P \<lparr>zi_owner = 0, zi_execAddr = 0, zi_size = 0\<rparr>
                        @ replicate (unat (pad8 (sizeof_BootZIChunkDesc P
                              * (word_of_nat (length (added_ziChunks calls)) + 1)))) 0)
                     @ concat (map blob_bytes (added_chunks calls))"
    if h: "list_all buffer_holds calls" and ne: "added_chunks calls \<noteq> []"
      and sg: "signing_ok P key st"
  proof -
    have rd: "ready st" by (rule builder_calls_ready[OF assms(2) h assms(3) ne])
    from generate_payload_completes[OF assms(1) rd sg, of fn]
    obtain st' where run: "generate_payload P None fn key st =
                 Inr (header_bytes P (final_header P key st) @ image_body P st, st')"
      and hd: "bootImage st' = final_header P key st"
      and t: "chunkTable st' = map release (addressed_chunks P st)"
      by blast
    have img: "header_bytes P (final_header P key st) @ image_body P st =
                     header_bytes P (bootImage st')
                     @ (concat (map (\<lambda>e. bytes_BootChunkDesc P (chunk e)) (chunkTable st'))
                        @ bytes_BootChunkDesc P
                            \<lparr>owner = 0, loadAddr = 0, execAddr = 0, chunk_size = 0, crc32 = 0\<rparr>
                        @ replicate (unat (pad8 (sizeof_BootChunkDesc P
                              * (word_of_nat (length (added_chunks calls)) + 1)))) 0)
                     @ (concat (map (bytes_BootZIChunkDesc P) (added_ziChunks calls))
                        @ bytes_BootZIChunkDesc P \<lparr>zi_owner = 0, zi_execAddr = 0, zi_size = 0\<rparr>
                        @ replicate (unat (pad8 (sizeof_BootZIChunkDesc P
                              * (word_of_nat (length (added_ziChunks calls)) + 1)))) 0)
                     @ concat (map blob_bytes (added_chunks calls))"
      using lenA
      by (simp add: hd t image_body_def bs chunk_table_bytes_explicit ziChunk_table_bytes_explicit
          comp_def)
    have "length (chunkTable st') = length (added_chunks calls)
          \<and> (\<forall>i < length (added_chunks calls).
                      (chunk (chunkTable st' ! i))\<lparr>loadAddr := 0\<rparr>
                        = (chunk (added_chunks calls ! i))\<lparr>loadAddr := 0\<rparr>
                      \<and> chunk_size (chunk (chunkTable st' ! i)) \<noteq> 0)"
      using lenA desc by (simp add: t)
    with run[unfolded img] show ?thesis by blast
  qed
  from first second show ?thesis by blast
qed

theorem tables_serialized_witness:
  "\<exists>file st'. generate_payload test_platform None ''payload.bin'' None sample_state = Inr (file, st')
                \<and> length (chunkTable st') = length (added_chunks sample_calls)
                \<and> (\<forall>i < length (added_chunks sample_calls).
                      (chunk (chunkTable st' ! i))\<lparr>loadAddr := 0\<rparr>
                        = (chunk (added_chunks sample_calls ! i))\<lparr>loadAddr := 0\<rparr>
                      \<and> chunk_size (chunk (chunkTable st' ! i)) \<noteq> 0)
                \<and> file =
                     header_bytes test_platform (bootImage st')
                     @ (concat (map (\<lambda>e. bytes_BootChunkDesc test_platform (chunk e)) (chunkTable st'))
                        @ bytes_BootChunkDesc test_platform
                            \<lparr>owner = 0, loadAddr = 0, execAddr = 0, chunk_size = 0, crc32 = 0\<rparr>
                        @ replicate (unat (pad8 (sizeof_BootChunkDesc test_platform
                              * (word_of_nat (length (added_chunks sample_calls)) + 1)))) 0)
                     @ (concat (map (bytes_BootZIChunkDesc test_platform) (added_ziChunks sample_calls))
                        @ bytes_BootZIChunkDesc test_platform \<lparr>zi_owner = 0, zi_execAddr = 0, zi_size = 0\<rparr>
                        @ replicate (unat (pad8 (sizeof_BootZIChunkDesc test_platform
                              * (word_of_nat (length (added_ziChunks sample_calls)) + 1)))) 0)
                     @ concat (map blob_bytes (added_chunks sample_calls))"
  using tables_serialized[OF wf_test_platform sample_built sample_length, of "''payload.bin''" None]
    sample_holds sample_added sample_unsigned
  by blast

lemma startup_header:
  assumes b: "builder_calls calls (generate_init P (startup other heap)) = Inr st"
  shows "headerCrc (bootImage st) = 0"
    and "signature (bootImage st) = \<lparr>digest = replicate 48 0, ecdsaSig = replicate 96 0\<rparr>"
  unfolding builder_calls_startup(5)[OF b] by (simp_all add: generate_init_def startup_def)

lemma final_header_unsigned:
  "(final_header P key st)\<lparr>signature := signature (bootImage st)\<rparr> = checksummed_header P st"
  by (simp add: final_header_def checksummed_header_def laid_out_header_def
      split: option.splits prod.splits)

lemma checksummed_header_unchecked:
  "(checksummed_header P st)\<lparr>headerCrc := headerCrc (bootImage st)\<rparr> = laid_out_header P st"
  by (simp add: checksummed_header_def laid_out_header_def)

section \<open>Checksum and signature\<close>

text \<open>
  C6. Write \<open>unsigned\<close> for the header of the finished build with its signature block
  zeroed: it carries the final offsets, lengths and checksum. The stored checksum is the
  CRC of that header with the checksum member still 0, so it covers neither digest nor
  signature. Without a key the header stays \<open>unsigned\<close>. With a key, the stored digest is
  the hash of the first \<open>bootImageLength\<close> bytes of the file as it was with the header
  \<open>unsigned\<close> (checksum present, signature block zero), and the stored signature is the
  two integers signed over that digest, each right-aligned in 48 bytes; so the digest does
  not cover the signature bytes that end up in the file.
\<close>

theorem checksum_then_digest:
  assumes "wf_platform P"
    and "builder_calls calls (generate_init P (startup other heap)) = Inr st"
    and "list_all buffer_holds calls"
    and "length calls < 2 ^ 64"
    and "added_chunks calls \<noteq> []"
    and "signing_ok P key st"
  shows "\<exists>file st'. generate_payload P None fn key st = Inr (file, st')
     \<and> (let unsigned = (bootImage st')
                          \<lparr>signature := \<lparr>digest = replicate 48 0, ecdsaSig = replicate 96 0\<rparr>\<rparr>;
             body = drop (length (header_bytes P (bootImage st'))) file
         in headerCrc (bootImage st')
              = CRC32_calculate P (bytes_BootImage P (unsigned\<lparr>headerCrc := 0\<rparr>))
            \<and> file = header_bytes P (bootImage st') @ body
            \<and> (case key of
                  None \<Rightarrow> bootImage st' = unsigned
                | Some k \<Rightarrow>
                    digest (signature (bootImage st'))
                      = SHA384 P (take (unat (bootImageLength (bootImage st')))
                                    (header_bytes P unsigned @ body))
                    \<and> (\<exists>r s. ECDSA_sign P k (digest (signature (bootImage st'))) = Some (r, s)
                            \<and> ecdsaSig (signature (bootImage st'))
                                = replicate (48 - length r) 0 @ r
                                  @ replicate (48 - length s) 0 @ s)))"
proof -
  have rd: "ready st" by (rule builder_calls_ready[OF assms(2,3,4,5)])
  note sh = startup_header[OF assms(2)]
  from generate_payload_completes[OF assms(1) rd assms(6), of fn]
  obtain st' where run: "generate_payload P None fn key st =
                 Inr (header_bytes P (final_header P key st) @ image_body P st, st')"
    and h: "bootImage st' = final_header P key st"
    by blast
  let ?sig0 = "\<lparr>digest = replicate 48 0, ecdsaSig = replicate 96 0\<rparr>"
  let ?file = "header_bytes P (final_header P key st) @ image_body P st"
  have u: "(final_header P key st)\<lparr>signature := ?sig0\<rparr> = checksummed_header P st"
    using final_header_unsigned[where P=P and key=key and st=st] by (simp add: sh)
  have u0: "(checksummed_header P st)\<lparr>headerCrc := 0\<rparr> = laid_out_header P st"
    using checksummed_header_unchecked[where P=P and st=st] by (simp add: sh)
  have body: "drop (length (header_bytes P (final_header P key st))) ?file = image_body P st"
    by simp
  have crc: "headerCrc (final_header P key st)
             = CRC32_calculate P (bytes_BootImage P (laid_out_header P st))"
    by (rule final_header_layout)
  have bil: "bootImageLength (final_header P key st) = bootImageLength (checksummed_header P st)"
    by (simp add: final_header_layout checksummed_header_def)
  have sg: "(case key of
               None \<Rightarrow> final_header P key st = checksummed_header P st
             | Some k \<Rightarrow>
                 digest (signature (final_header P key st))
                   = SHA384 P (take (unat (bootImageLength (checksummed_header P st)))
                                 (header_bytes P (checksummed_header P st) @ image_body P st))
                 \<and> (\<exists>r s. ECDSA_sign P k (digest (signature (final_header P key st))) = Some (r, s)
                         \<and> ecdsaSig (signature (final_header P key st))
                             = replicate (48 - length r) 0 @ r
                               @ replicate (48 - length s) 0 @ s))"
  proof (cases key)
    case None
    then show ?thesis by (simp add: final_header_def)
  next
    case (Some k)
    from assms(6) obtain r s where es: "ECDSA_sign P k (image_digest P st) = Some (r, s)"
      by (auto simp: signing_ok_def Some split: option.splits)
    then show ?thesis
      by (simp add: Some final_header_def) (simp add: image_digest_def)
  qed
  show ?thesis
    apply (rule exI[of _ ?file], rule exI[of _ st'])
    apply (simp only: Let_def h u u0 body bil)
    using run crc sg by simp
qed

theorem checksum_then_digest_witness:
  "\<exists>file st'. generate_payload test_platform None ''payload.bin'' (Some ''key.pem'') sample_state
                = Inr (file, st')
     \<and> headerCrc (bootImage st')
          = CRC32_calculate test_platform (bytes_BootImage test_platform
              ((bootImage st')\<lparr>signature := \<lparr>digest = replicate 48 0, ecdsaSig = replicate 96 0\<rparr>,
                               headerCrc := 0\<rparr>))
     \<and> digest (signature (bootImage st'))
          = SHA384 test_platform (take (unat (bootImageLength (bootImage st')))
              (header_bytes test_platform
                 ((bootImage st')\<lparr>signature := \<lparr>digest = replicate 48 0, ecdsaSig = replicate 96 0\<rparr>\<rparr>)
               @ drop (length (header_bytes test_platform (bootImage st'))) file))"
  using checksum_then_digest[OF wf_test_platform sample_built sample_holds sample_length
      sample_added sample_signed, of "''payload.bin''"]
  by (simp add: Let_def) blast

lemma generate_chunks_body_result:
  assumes "generate_chunks_body P i cum f st = Inr (cum', f', st')"
  shows "i < length (chunkTable st)"
    and "cum' = cum + padded8 (chunk_size (chunk (chunkTable st ! i)))"
    and "st' = st\<lparr>chunkTable := (chunkTable st)
                 [i := (chunkTable st ! i)\<lparr>chunk := (chunk (chunkTable st ! i))\<lparr>loadAddr :=
                    first_blob_offset P (chunkTableOffset (bootImage st))
                      (numChunks st) (numZIChunks st) + cum + pad8 cum\<rparr>\<rparr>]\<rparr>"
proof -
  show i: "i < length (chunkTable st)"
    using assms by (auto simp: generate_chunks_body_def split: if_splits)
  from assms i show "cum' = cum + padded8 (chunk_size (chunk (chunkTable st ! i)))"
    by (auto simp: generate_chunks_body_def calculate_padding_PAD_SIZE Let_def padded8_def
        split: option.splits)
  from assms i show "st' = st\<lparr>chunkTable := (chunkTable st)
                 [i := (chunkTable st ! i)\<lparr>chunk := (chunk (chunkTable st ! i))\<lparr>loadAddr :=
                    first_blob_offset P (chunkTableOffset (bootImage st))
                      (numChunks st) (numZIChunks st) + cum + pad8 cum\<rparr>\<rparr>]\<rparr>"
    by (auto simp: generate_chunks_body_def calculate_padding_PAD_SIZE Let_def
        first_blob_offset_def first_blob_offset_code split: option.splits)
qed

lemma generate_chunks_loop_keeps:
  "generate_chunks_loop P k i cum f st = Inr (c', f', st') \<Longrightarrow>
     length (chunkTable st') = length (chunkTable st)
     \<and> (\<forall>l < i. chunkTable st' ! l = chunkTable st ! l)
     \<and> drop (i + k) (chunkTable st') = drop (i + k) (chunkTable st)
     \<and> bootImage st' = bootImage st \<and> numChunks st' = numChunks st
     \<and> numZIChunks st' = numZIChunks st"
proof (induction k arbitrary: i cum f st)
  case 0
  then show ?case by simp
next
  case (Suc k)
  from Suc.prems obtain c1 f1 s1 where b: "generate_chunks_body P i cum f st = Inr (c1, f1, s1)"
    and r: "generate_chunks_loop P k (Suc i) c1 f1 s1 = Inr (c', f', st')"
    by (auto split: sum.splits)
  note br = generate_chunks_body_result[OF b]
  from Suc.IH[OF r] have "length (chunkTable st') = length (chunkTable s1)"
    and "\<forall>l < Suc i. chunkTable st' ! l = chunkTable s1 ! l"
    and "drop (Suc i + k) (chunkTable st') = drop (Suc i + k) (chunkTable s1)"
    and "bootImage st' = bootImage s1" "numChunks st' = numChunks s1"
    and "numZIChunks st' = numZIChunks s1" by simp_all
  then show ?case by (simp add: br(3))
qed

lemma generate_chunks_loop_add:
  "generate_chunks_loop P (j + k) i cum f st =
     (case generate_chunks_loop P j i cum f st of
        Inl e \<Rightarrow> Inl e
      | Inr (c, g, s) \<Rightarrow> generate_chunks_loop P k (i + j) c g s)"
  by (induction j arbitrary: i cum f st) (auto split: sum.splits)

lemma generate_chunks_loop_total:
  "8 dvd unat cum \<Longrightarrow> generate_chunks_loop P j i cum f st = Inr (c, g, s) \<Longrightarrow>
     8 dvd unat c
     \<and> c = cum + sum_list (map (\<lambda>e. padded8 (chunk_size (chunk e))) (take j (drop i (chunkTable st))))"
proof (induction j arbitrary: i cum f st)
  case 0
  then show ?case by simp
next
  case (Suc j)
  from Suc.prems(2) obtain c1 f1 s1 where b: "generate_chunks_body P i cum f st = Inr (c1, f1, s1)"
    and r: "generate_chunks_loop P j (Suc i) c1 f1 s1 = Inr (c, g, s)"
    by (auto split: sum.splits)
  note br = generate_chunks_body_result[OF b]
  have al: "8 dvd unat c1"
    unfolding br(2) by (rule dvd8_unat_add) (simp add: Suc.prems(1) dvd8_padded8)
  have dr: "drop i (chunkTable st) = chunkTable st ! i # drop (Suc i) (chunkTable st)"
    using br(1) by (simp add: Cons_nth_drop_Suc)
  have s1: "drop (Suc i) (chunkTable s1) = drop (Suc i) (chunkTable st)"
    using br(1) by (simp add: br(3))
  note IH = Suc.IH[OF al r]
  from IH have a: "8 dvd unat c" by (rule conjunct1)
  from IH have "c = c1 + sum_list (map (\<lambda>e. padded8 (chunk_size (chunk e)))
                              (take j (drop (Suc i) (chunkTable s1))))" by (rule conjunct2)
  then have "c = cum + sum_list (map (\<lambda>e. padded8 (chunk_size (chunk e)))
                              (take (Suc j) (drop i (chunkTable st))))"
    by (simp add: s1 dr br(2) add.assoc)
  with a show ?case by (rule conjI)
qed

lemma generate_chunks_runs_loop:
  assumes "generate_chunks P pFileOut st0 = Inr (f', st')"
  shows "\<exists>c f s. generate_chunks_loop P (unat (numChunks st0)) 0 0 pFileOut
                    (st0\<lparr>bootImage := (bootImage st0)\<lparr>chunkTableOffset := ftello pFileOut\<rparr>\<rparr>)
                  = Inr (c, f, s)
               \<and> chunkTable st' = chunkTable s"
  using assms
  by (auto simp: generate_chunks_def calculate_padding_PAD_SIZE bindE_def Let_def
      split: if_splits option.splits sum.splits)

section \<open>The running blob total\<close>

text \<open>
  C9. The loop of \<^verbatim>\<open>generate_chunks\<close> starts with \<^verbatim>\<open>i = 0\<close> and
  \<^verbatim>\<open>cumulativeBlobSize = 0\<close>. Whenever \<open>j\<close> of its iterations have run, the total \<open>c\<close>
  that the loop carries into iteration \<open>j\<close> is a multiple of 8, the padding that the
  code computes for it is 0, and it is the sum of the padded sizes of the \<open>j\<close> chunks
  before. When the body of iteration \<open>j\<close> returns, the total it returns is \<open>c\<close> plus the
  size of chunk \<open>j\<close> and the padding of that size, again a multiple of 8; it is the total
  that the loop carries into iteration \<open>j + 1\<close>; and the address the body stores is the
  offset of the chunk table plus the two padded table sizes plus \<open>c\<close>. In a pass of
  \<^verbatim>\<open>generate_chunks\<close> that returns, each of the \<^verbatim>\<open>numChunks\<close> iterations is such
  an iteration, and the entry it stores is the entry of the final table.
\<close>

theorem cumulativeBlobSize_aligned:
  "(\<forall>c f s. generate_chunks_loop P j 0 0 pFileOut
               (st0\<lparr>bootImage := (bootImage st0)\<lparr>chunkTableOffset := ftello pFileOut\<rparr>\<rparr>)
             = Inr (c, f, s) \<longrightarrow>
        8 dvd unat c
      \<and> calculate_padding c PAD_SIZE = Inr 0
      \<and> c = sum_list (map (\<lambda>e. padded8 (chunk_size (chunk e))) (take j (chunkTable st0)))
      \<and> (\<forall>c1 f1 s1. generate_chunks_body P j c f s = Inr (c1, f1, s1) \<longrightarrow>
             c1 = c + (chunk_size (chunk (chunkTable st0 ! j))
                       + pad8 (chunk_size (chunk (chunkTable st0 ! j))))
           \<and> 8 dvd unat c1
           \<and> generate_chunks_loop P (Suc j) 0 0 pFileOut
               (st0\<lparr>bootImage := (bootImage st0)\<lparr>chunkTableOffset := ftello pFileOut\<rparr>\<rparr>)
             = Inr (c1, f1, s1)
           \<and> loadAddr (chunk (chunkTable s1 ! j)) =
               ftello pFileOut
               + padded8 (sizeof_BootChunkDesc P * (numChunks st0 + 1))
               + padded8 (sizeof_BootZIChunkDesc P * (numZIChunks st0 + 1))
               + c))
   \<and> (\<forall>f' st'. generate_chunks P pFileOut st0 = Inr (f', st') \<longrightarrow> j < unat (numChunks st0) \<longrightarrow>
        (\<exists>c f s c1 f1 s1.
            generate_chunks_loop P j 0 0 pFileOut
              (st0\<lparr>bootImage := (bootImage st0)\<lparr>chunkTableOffset := ftello pFileOut\<rparr>\<rparr>)
            = Inr (c, f, s)
          \<and> generate_chunks_body P j c f s = Inr (c1, f1, s1)
          \<and> chunkTable st' ! j = chunkTable s1 ! j))"
proof (intro conjI allI impI)
  let ?st = "st0\<lparr>bootImage := (bootImage st0)\<lparr>chunkTableOffset := ftello pFileOut\<rparr>\<rparr>"
  have z: "8 dvd unat (0::size_t)" by simp
  {
    fix c f s
    assume run: "generate_chunks_loop P j 0 0 pFileOut ?st = Inr (c, f, s)"
    note tot = generate_chunks_loop_total[OF z run]
    from tot show al: "8 dvd unat c" by (rule conjunct1)
    from tot show "c = sum_list (map (\<lambda>e. padded8 (chunk_size (chunk e))) (take j (chunkTable st0)))"
      by auto
    show "calculate_padding c PAD_SIZE = Inr 0"
      by (simp add: calculate_padding_PAD_SIZE pad8_aligned[OF al])
    fix c1 f1 s1
    assume b: "generate_chunks_body P j c f s = Inr (c1, f1, s1)"
    note br = generate_chunks_body_result[OF b]
    from generate_chunks_loop_keeps[OF run]
    have k: "length (chunkTable s) = length (chunkTable st0)"
      "drop j (chunkTable s) = drop j (chunkTable st0)"
      "bootImage s = bootImage ?st" "numChunks s = numChunks st0" "numZIChunks s = numZIChunks st0"
      by simp_all
    have j: "j < length (chunkTable st0)" using br(1) k(1) by simp
    have e: "chunkTable s ! j = chunkTable st0 ! j"
      using k(2) j by (metis k(1) nth_via_drop Cons_nth_drop_Suc)
    show "c1 = c + (chunk_size (chunk (chunkTable st0 ! j))
                    + pad8 (chunk_size (chunk (chunkTable st0 ! j))))"
      by (simp add: br(2) e padded8_def)
    show "8 dvd unat c1"
      unfolding br(2) by (rule dvd8_unat_add) (simp add: al dvd8_padded8)
    show "generate_chunks_loop P (Suc j) 0 0 pFileOut ?st = Inr (c1, f1, s1)"
      using generate_chunks_loop_add[of P j "Suc 0" 0 0 pFileOut ?st] by (simp add: run b)
    show "loadAddr (chunk (chunkTable s1 ! j)) =
               ftello pFileOut
               + padded8 (sizeof_BootChunkDesc P * (numChunks st0 + 1))
               + padded8 (sizeof_BootZIChunkDesc P * (numZIChunks st0 + 1))
               + c"
      using br(1) by (simp add: br(3) k pad8_aligned[OF al] first_blob_offset_def)
  }
  fix f' st'
  assume g: "generate_chunks P pFileOut st0 = Inr (f', st')" and j: "j < unat (numChunks st0)"
  from generate_chunks_runs_loop[OF g] obtain cn fn sn where
    all: "generate_chunks_loop P (unat (numChunks st0)) 0 0 pFileOut ?st = Inr (cn, fn, sn)"
    and tbl: "chunkTable st' = chunkTable sn" by blast
  from j have n: "unat (numChunks st0) = Suc j + (unat (numChunks st0) - Suc j)" by simp
  from all generate_chunks_loop_add[of P "Suc j" "unat (numChunks st0) - Suc j" 0 0 pFileOut ?st]
  obtain c1 f1 s1 where r1: "generate_chunks_loop P (Suc j) 0 0 pFileOut ?st = Inr (c1, f1, s1)"
    and rest: "generate_chunks_loop P (unat (numChunks st0) - Suc j) (Suc j) c1 f1 s1 = Inr (cn, fn, sn)"
    unfolding n[symmetric] by (auto split: sum.splits)
  from r1 generate_chunks_loop_add[of P j "Suc 0" 0 0 pFileOut ?st]
  obtain c f s where r0: "generate_chunks_loop P j 0 0 pFileOut ?st = Inr (c, f, s)"
    and b: "generate_chunks_body P j c f s = Inr (c1, f1, s1)"
    by (auto split: sum.splits)
  from generate_chunks_loop_keeps[OF rest] have "chunkTable sn ! j = chunkTable s1 ! j" by simp
  with r0 b tbl
  show "\<exists>c f s c1 f1 s1.
            generate_chunks_loop P j 0 0 pFileOut ?st = Inr (c, f, s)
          \<and> generate_chunks_body P j c f s = Inr (c1, f1, s1)
          \<and> chunkTable st' ! j = chunkTable s1 ! j"
    by auto
qed


theorem cumulativeBlobSize_aligned_witness:
  "\<exists>f' st' c f s c1 f1 s1.
      generate_chunks test_platform (stream (replicate 208 0) 208) sample_state = Inr (f', st')
    \<and> (1::nat) < unat (numChunks sample_state)
    \<and> generate_chunks_loop test_platform 1 0 0 (stream (replicate 208 0) 208)
          (sample_state\<lparr>bootImage := (bootImage sample_state)
             \<lparr>chunkTableOffset := ftello (stream (replicate 208 0) 208)\<rparr>\<rparr>)
        = Inr (c, f, s)
    \<and> generate_chunks_body test_platform 1 c f s = Inr (c1, f1, s1)
    \<and> generate_chunks_loop test_platform 2 0 0 (stream (replicate 208 0) 208)
          (sample_state\<lparr>bootImage := (bootImage sample_state)
             \<lparr>chunkTableOffset := ftello (stream (replicate 208 0) 208)\<rparr>\<rparr>)
        = Inr (c1, f1, s1)
    \<and> c = 16 \<and> calculate_padding c PAD_SIZE = Inr 0
    \<and> c1 = 40 \<and> 8 dvd unat c1
    \<and> loadAddr (chunk (chunkTable st' ! 1)) = 392"
proof -
  let ?f = "stream (replicate 208 0) 208"
  let ?st = "sample_state\<lparr>bootImage := (bootImage sample_state)\<lparr>chunkTableOffset := ftello ?f\<rparr>\<rparr>"
  have n: "unat (numChunks sample_state) = length (chunkTable sample_state)"
    by (simp add: sample_state_def)
  have p: "208 = length (replicate 208 (0::byte))" by simp
  have s0: "sizeof_BootImage test_platform = 208" by (simp add: test_platform_def)
  have h: "length (replicate 208 (0::byte)) = length (header_bytes test_platform h0)" for h0
    unfolding length_header_bytes[OF wf_test_platform] s0
    by (simp add: pad8_def padding_needed_def)
  from generate_chunks_stream[OF wf_test_platform n p h]
  obtain f' st' where g: "generate_chunks test_platform ?f sample_state = Inr (f', st')"
    by blast
  have j: "(1::nat) < unat (numChunks sample_state)" by (simp add: sample_state_def)
  note inv = cumulativeBlobSize_aligned[of test_platform 1 ?f sample_state]
  from inv[THEN conjunct2, rule_format, OF g j]
  obtain c f s c1 f1 s1 where
    r: "generate_chunks_loop test_platform 1 0 0 ?f ?st = Inr (c, f, s)"
    and b: "generate_chunks_body test_platform 1 c f s = Inr (c1, f1, s1)"
    and e: "chunkTable st' ! 1 = chunkTable s1 ! 1"
    by blast
  note at = inv[THEN conjunct1, rule_format, OF r]
  note step = at[THEN conjunct2, THEN conjunct2, THEN conjunct2, rule_format, OF b]
  have t: "chunkTable sample_state =
     [\<lparr>chunk = \<lparr>owner = 1, loadAddr = 0, execAddr = 0x80000000, chunk_size = 10, crc32 = 7\<rparr>,
       pBuffer = Some (replicate 10 0xAA)\<rparr>,
      \<lparr>chunk = \<lparr>owner = 2, loadAddr = 0, execAddr = 0x80003000, chunk_size = 20, crc32 = 9\<rparr>,
       pBuffer = Some (replicate 20 0xBB)\<rparr>]"
    and v: "numChunks sample_state = 2" "numZIChunks sample_state = 1"
    by (simp_all add: sample_state_def)
  have sz: "sizeof_BootChunkDesc test_platform = 40" "sizeof_BootZIChunkDesc test_platform = 24"
    by (simp_all add: test_platform_def)
  have c: "c = 16"
    using at[THEN conjunct2, THEN conjunct2, THEN conjunct1] by (simp add: t padded8_values)
  have z: "calculate_padding c PAD_SIZE = Inr 0"
    using at[THEN conjunct2, THEN conjunct1] .
  have c1: "c1 = 40"
    using step[THEN conjunct1] padded8_values(2) by (simp add: t c padded8_def)
  have a1: "8 dvd unat c1"
    using step[THEN conjunct2, THEN conjunct1] .
  have r2: "generate_chunks_loop test_platform 2 0 0 ?f ?st = Inr (c1, f1, s1)"
    using step[THEN conjunct2, THEN conjunct2, THEN conjunct1] by (simp add: numeral_2_eq_2)
  have l: "loadAddr (chunk (chunkTable st' ! 1)) = 392"
    using step[THEN conjunct2, THEN conjunct2, THEN conjunct2]
    using e by (simp add: v sz c padded8_values ftello_def stream_def)
  from g j r b r2 c z c1 a1 l show ?thesis by blast
qed

lemma stream_stop_simps [simp]:
  "stream_stop Abort" "stream_stop Fault"
  "stream_stop (Exit ''fseek()'' EXIT_SUCCESS)" "stream_stop (Exit ''fwrite()'' EXIT_SUCCESS)"
  by (simp_all add: stream_stop_def)

lemma write_pad_loop_stop: "write_pad_loop f n = Inl e \<Longrightarrow> stream_stop e"
  by (induction n arbitrary: f) (auto split: option.splits)

lemma write_pad_stop: "write_pad f n = Inl e \<Longrightarrow> stream_stop e"
  by (simp add: write_pad_def write_pad_loop_stop)

lemma generate_header_stop: "generate_header P f st = Inl e \<Longrightarrow> stream_stop e"
  by (auto simp: generate_header_def calculate_padding_PAD_SIZE bindE_def
      split: option.splits sum.splits dest: write_pad_stop)

lemma generate_chunks_body_stop: "generate_chunks_body P i c f st = Inl e \<Longrightarrow> stream_stop e"
  by (auto simp: generate_chunks_body_def calculate_padding_PAD_SIZE Let_def
      split: if_splits option.splits)

lemma generate_chunks_loop_stop: "generate_chunks_loop P k i c f st = Inl e \<Longrightarrow> stream_stop e"
  by (induction k arbitrary: i c f st)
     (auto split: sum.splits dest: generate_chunks_body_stop)

lemma generate_chunks_stop: "generate_chunks P f st = Inl e \<Longrightarrow> stream_stop e"
  by (auto simp: generate_chunks_def calculate_padding_PAD_SIZE bindE_def Let_def
      split: if_splits option.splits sum.splits
      dest: write_pad_stop generate_chunks_loop_stop)

lemma generate_ziChunks_loop_stop: "generate_ziChunks_loop P k i f st = Inl e \<Longrightarrow> stream_stop e"
  by (induction k arbitrary: i f)
     (auto simp: generate_ziChunks_body_def split: sum.splits if_splits option.splits)

lemma generate_ziChunks_stop: "generate_ziChunks P f st = Inl e \<Longrightarrow> stream_stop e"
  by (auto simp: generate_ziChunks_def calculate_padding_PAD_SIZE bindE_def Let_def
      split: if_splits option.splits sum.splits
      dest: write_pad_stop generate_ziChunks_loop_stop)

lemma generate_blobs_body_stop: "generate_blobs_body P i f st = Inl e \<Longrightarrow> stream_stop e"
  by (auto simp: generate_blobs_body_def calculate_padding_PAD_SIZE Let_def bindE_def
      split: if_splits option.splits sum.splits dest: write_pad_stop)

lemma generate_blobs_loop_stop: "generate_blobs_loop P k i f st = Inl e \<Longrightarrow> stream_stop e"
  by (induction k arbitrary: i f st)
     (auto split: sum.splits dest: generate_blobs_body_stop)

lemma generate_blobs_stop: "generate_blobs P f st = Inl e \<Longrightarrow> stream_stop e"
  by (auto simp: generate_blobs_def calculate_padding_PAD_SIZE
      split: list.splits if_splits dest: generate_blobs_loop_stop)

lemma sign_payload_stop: "sign_payload P f key st = Inl e \<Longrightarrow> stream_stop e"
  by (auto simp: sign_payload_def Let_def
      split: option.splits prod.splits if_splits dest: generate_header_stop)

lemma generate_payload_stop:
  assumes "generate_payload P env fn key st = Inl e"
  shows "stream_stop e \<or> e = Exit ''fopen()'' EXIT_FAILURE \<or> e = Exit ''fclose()'' EXIT_FAILURE"
  using assms
  unfolding generate_payload_def Let_def bindE_def
  by (auto split: option.splits sum.splits prod.splits if_splits
      dest: generate_header_stop generate_chunks_stop generate_ziChunks_stop generate_blobs_stop
        sign_payload_stop)

text \<open>
  Every reported exit of a build: only a failed open or close gives \<^verbatim>\<open>EXIT_FAILURE\<close>;
  every seek or write failure, padding or not, gives \<^verbatim>\<open>EXIT_SUCCESS\<close>.
\<close>

lemma exit_status_of_generate_payload:
  assumes "generate_payload P env fn key st = Inl (Exit msg status)"
  shows "(status = EXIT_FAILURE \<and> (msg = ''fopen()'' \<or> msg = ''fclose()''))
         \<or> (status = EXIT_SUCCESS \<and> (msg = ''fseek()'' \<or> msg = ''fwrite()''))"
  using generate_payload_stop[OF assms] by (auto simp: stream_stop_def)

section \<open>Exit status on stream failures\<close>

text \<open>
  C7 says that every detected I/O failure but a failed padding write ends the process
  with a non-zero status. In the code a failed \<^verbatim>\<open>fopen\<close> does
  (\<^verbatim>\<open>EXIT_FAILURE\<close>), but a failed \<^verbatim>\<open>fseek\<close> and a failed \<^verbatim>\<open>fwrite\<close> of the
  header record, neither of them a padding write, end it with \<^verbatim>\<open>EXIT_SUCCESS\<close>, and so
  does the failed write of a chunk descriptor.
\<close>

theorem seek_and_write_failures_exit_with_success:
  "generate_payload P (Some 0) fn key st = Inl (Exit ''fopen()'' EXIT_FAILURE)
   \<and> generate_payload P (Some 1) fn key st = Inl (Exit ''fseek()'' EXIT_SUCCESS)
   \<and> generate_payload P (Some 2) fn key st = Inl (Exit ''fwrite()'' EXIT_SUCCESS)
   \<and> generate_payload test_platform (Some 3) ''payload.bin'' None sample_state
       = Inl (Exit ''fwrite()'' EXIT_SUCCESS)
   \<and> EXIT_SUCCESS = 0 \<and> EXIT_FAILURE \<noteq> 0"
proof -
  have a: "generate_payload P (Some 0) fn key st = Inl (Exit ''fopen()'' EXIT_FAILURE)"
    by (simp add: generate_payload_def fopen_def env_call_def)
  have b: "generate_payload P (Some 1) fn key st = Inl (Exit ''fseek()'' EXIT_SUCCESS)"
    by (simp add: generate_payload_def fopen_def env_call_def generate_header_def fseek_def)
  have c: "generate_payload P (Some 2) fn key st = Inl (Exit ''fwrite()'' EXIT_SUCCESS)"
    by (simp add: generate_payload_def fopen_def env_call_def generate_header_def fseek_def
        fwrite_def)
  have p: "calculate_padding 208 PAD_SIZE = Inr 0" "calculate_padding 120 PAD_SIZE = Inr 0"
    "calculate_padding 48 PAD_SIZE = Inr 0" "calculate_padding 0 PAD_SIZE = Inr 0"
    by (simp_all add: calculate_padding_def PAD_SIZE_def)
  have h: "generate_header test_platform \<lparr>contents = [], posn = 0, calls_ok = Some 2\<rparr> sample_state
           = Inr (\<lparr>contents = lp64_BootImage (bootImage sample_state), posn = 208, calls_ok = Some 0\<rparr>,
                  sample_state\<lparr>bootImagePaddedSize := 208\<rparr>)"
    by (simp add: generate_header_def fseek_def fwrite_def env_call_def test_platform_def p
        write_pad_def store_def ftello_def lp64_BootImage_def)
  have loop: "generate_chunks_loop Q (Suc k) 0 cum g s = Inl (Exit ''fwrite()'' EXIT_SUCCESS)"
    if "calls_ok g = Some 0" "chunkTable s \<noteq> []" for Q k cum g s
    using that
    by (simp add: generate_chunks_body_def calculate_padding_PAD_SIZE fwrite_def env_call_def Let_def)
  define g0 where
    "g0 = \<lparr>contents = lp64_BootImage (bootImage sample_state), posn = 208, calls_ok = Some 0\<rparr>"
  define s0 where
    "s0 = (sample_state\<lparr>bootImagePaddedSize := 208\<rparr>)
            \<lparr>bootImage := (bootImage (sample_state\<lparr>bootImagePaddedSize := 208\<rparr>))
               \<lparr>chunkTableOffset := ftello g0\<rparr>\<rparr>"
  have u: "unat (numChunks s0) = Suc (Suc 0)" by (simp add: s0_def sample_state_def)
  have as: "(chunkTableOffset (bootImage s0)
             \<noteq> sizeof_BootImage test_platform + pad8 (sizeof_BootImage test_platform)) = False"
    by (simp add: s0_def g0_def ftello_def test_platform_def pad8_def padding_needed_def)
  have lp: "generate_chunks_loop test_platform (unat (numChunks s0)) 0 0 g0 s0
            = Inl (Exit ''fwrite()'' EXIT_SUCCESS)"
    unfolding u by (rule loop) (simp_all add: g0_def s0_def sample_state_def)
  have g: "generate_chunks test_platform g0 (sample_state\<lparr>bootImagePaddedSize := 208\<rparr>)
           = Inl (Exit ''fwrite()'' EXIT_SUCCESS)"
    unfolding generate_chunks_def Let_def s0_def[symmetric]
    by (simp only: calculate_padding_PAD_SIZE bindE_Inr as if_False lp bindE_Inl)
  have d: "generate_payload test_platform (Some 3) ''payload.bin'' None sample_state
       = Inl (Exit ''fwrite()'' EXIT_SUCCESS)"
    unfolding generate_payload_def
    by (simp add: fopen_def env_call_def h g[unfolded g0_def])
  show ?thesis using a b c d by (simp add: EXIT_SUCCESS_def EXIT_FAILURE_def)
qed

end
